theory Spec2Isabelle
  imports Complex_Main "HOL-Library.Log_Nat"
begin

section \<open>JavaScript values\<close>

text \<open>
  The validators of \<^verbatim>\<open>packages/shared/src/index.js\<close> receive whatever \<^verbatim>\<open>JSON.parse\<close> produced
  from a request body, and read absent properties as \<^verbatim>\<open>undefined\<close>. Values are therefore
  modelled as JSON values plus \<^verbatim>\<open>undefined\<close>; an object is the list of its own properties.

  A number is an IEEE-754 binary64 value: \<open>NaN\<close>, the two infinities, or a finite value
  given by the rational it denotes (the two zeros are not told apart: the code never
  divides by a weight, and \<^verbatim>\<open>toFixed\<close>, \<^verbatim>\<open><\<close> and \<^verbatim>\<open>></\<close> treat them alike).

  A string is a list of 8-bit characters. The characters below 128 are the ASCII code
  units; the others stand for code units that are neither white space nor cased, so that
  \<^verbatim>\<open>trim\<close> and \<^verbatim>\<open>toUpperCase\<close> act on ASCII only. A string with white space outside ASCII
  (such as U+00A0) or with a cased letter outside ASCII (such as U+017F, which
  \<^verbatim>\<open>String.prototype.toUpperCase\<close> maps to \<^verbatim>\<open>S\<close>) has no counterpart in the model, and no
  statement below is about what \<^verbatim>\<open>trim\<close> and \<^verbatim>\<open>toUpperCase\<close> do to such a string.
\<close>

datatype jsnum = NaN | PosInf | NegInf | Fin rat

datatype jsval =
    JUndefined
  | JNull
  | JBool bool
  | JNum jsnum
  | JStr string
  | JArr "jsval list"
  | JObj "(string \<times> jsval) list"

datatype js_error =
    ContractValidationError string string jsval
  | TypeError string
  | Error string
  | HttpError nat string string

fun error_code :: "js_error \<Rightarrow> string" where
  "error_code (ContractValidationError code message details) = code"
| "error_code (TypeError message) = ''TypeError''"
| "error_code (Error message) = ''Error''"
| "error_code (HttpError statusCode message code) = code"

fun typeof :: "jsval \<Rightarrow> string" where
  "typeof JUndefined = ''undefined''"
| "typeof JNull = ''object''"
| "typeof (JBool b) = ''boolean''"
| "typeof (JNum n) = ''number''"
| "typeof (JStr s) = ''string''"
| "typeof (JArr xs) = ''object''"
| "typeof (JObj kvs) = ''object''"

text \<open>Property read \<^verbatim>\<open>value.key\<close> on a value that is known to be an object.\<close>

fun get :: "jsval \<Rightarrow> string \<Rightarrow> jsval" where
  "get (JObj kvs) key = (case map_of kvs key of Some v \<Rightarrow> v | None \<Rightarrow> JUndefined)"
| "get v key = JUndefined"

fun isRecord :: "jsval \<Rightarrow> bool" where
  "isRecord (JObj kvs) = True"
| "isRecord v = False"

fun isArray :: "jsval \<Rightarrow> bool" where
  "isArray (JArr xs) = True"
| "isArray v = False"

section \<open>Strings\<close>

definition is_ws :: "char \<Rightarrow> bool" where
  "is_ws c = (c \<in> set [CHR 0x09, CHR 0x0A, CHR 0x0B, CHR 0x0C, CHR 0x0D, CHR '' ''])"

definition trim :: "string \<Rightarrow> string" where
  "trim s = rev (dropWhile is_ws (rev (dropWhile is_ws s)))"

text \<open>The upper-case letter of an ASCII lower-case letter; every other character is kept.\<close>

definition upper_char :: "char \<Rightarrow> char" where
  "upper_char c =
     (case map_of (zip ''abcdefghijklmnopqrstuvwxyz'' ''ABCDEFGHIJKLMNOPQRSTUVWXYZ'') c of
        Some u \<Rightarrow> u
      | None \<Rightarrow> c)"

definition toUpperCase :: "string \<Rightarrow> string" where
  "toUpperCase s = map upper_char s"

definition is_digit :: "char \<Rightarrow> bool" where
  "is_digit c = (c \<in> set ''0123456789'')"

definition digit_val :: "char \<Rightarrow> nat" where
  "digit_val c = (of_char c :: nat) - 48"

definition digit_char :: "nat \<Rightarrow> char" where
  "digit_char d = ''0123456789'' ! d"

text \<open>\<^verbatim>\<open>String(n)\<close> for an array index or any other natural number.\<close>

function string_of_nat :: "nat \<Rightarrow> string" where
  "string_of_nat n =
     (if n < 10 then [digit_char n] else string_of_nat (n div 10) @ [digit_char (n mod 10)])"
  by pat_completeness auto
termination
  by (relation "measure id") auto

declare string_of_nat.simps [simp del]

definition digits_val :: "nat \<Rightarrow> string \<Rightarrow> nat" where
  "digits_val base ds = foldl (\<lambda>a c. base * a + digit_val c) 0 ds"

fun join :: "string \<Rightarrow> string list \<Rightarrow> string" where
  "join sep [] = []"
| "join sep [x] = x"
| "join sep (x # y # ys) = x @ sep @ join sep (y # ys)"

fun startsWith :: "string \<Rightarrow> string \<Rightarrow> bool" where
  "startsWith s [] = True"
| "startsWith [] (p # ps) = False"
| "startsWith (c # cs) (p # ps) = (c = p \<and> startsWith cs ps)"

section \<open>Numbers\<close>

definition pow2 :: "int \<Rightarrow> rat" where
  "pow2 e = (if 0 \<le> e then 2 ^ nat e else 1 / 2 ^ nat (- e))"

definition pow10 :: "int \<Rightarrow> rat" where
  "pow10 e = (if 0 \<le> e then 10 ^ nat e else 1 / 10 ^ nat (- e))"

text \<open>The exponent of the binade of a positive rational: \<open>pow2 (binade a) \<le> a < pow2 (binade a + 1)\<close>.\<close>

definition binade :: "rat \<Rightarrow> int" where
  "binade a = (if 1 \<le> a then bitlen \<lfloor>a\<rfloor> - 1 else - bitlen (\<lceil>1 / a\<rceil> - 1))"

definition round_half_even :: "rat \<Rightarrow> int" where
  "round_half_even q =
     (let f = \<lfloor>q\<rfloor>; d = q - of_int f
      in if d < 1 / 2 then f else if 1 / 2 < d then f + 1 else if even f then f else f + 1)"

definition max_double :: rat where
  "max_double = (2 ^ 53 - 1) * 2 ^ 971"

text \<open>
  The Number value for a rational: round to the nearest binary64 value, ties to even,
  with 53 significant bits from exponent \<open>-1022\<close> on and a fixed spacing of \<open>2\<^sup>-\<^sup>1\<^sup>0\<^sup>7\<^sup>4\<close> below.
  Only a value of the top binade can round beyond the largest finite number.
\<close>

definition double_of_rat :: "rat \<Rightarrow> jsnum" where
  "double_of_rat x =
     (if x = 0 then Fin 0
      else let a = \<bar>x\<bar>;
               e = max (binade a) (- 1022);
               ulp = pow2 (e - 52);
               y = of_int (round_half_even (a / ulp)) * ulp
           in if e < 1023 then Fin (if 0 < x then y else - y)
              else if max_double < y then (if 0 < x then PosInf else NegInf)
              else Fin (if 0 < x then y else - y))"

text \<open>Rounding to \<open>f\<close> decimal places, halves upwards, as a rational.\<close>

definition round_to :: "nat \<Rightarrow> rat \<Rightarrow> rat" where
  "round_to f x = of_int \<lfloor>x * 10 ^ f + 1 / 2\<rfloor> / 10 ^ f"

fun isFinite :: "jsnum \<Rightarrow> bool" where
  "isFinite (Fin x) = True"
| "isFinite n = False"

fun isInteger :: "jsnum \<Rightarrow> bool" where
  "isInteger (Fin x) = (x = of_int \<lfloor>x\<rfloor>)"
| "isInteger n = False"

text \<open>The comparison \<^verbatim>\<open>a < b\<close> of two numbers; it is false when either is \<open>NaN\<close>.\<close>

fun js_lt :: "jsnum \<Rightarrow> jsnum \<Rightarrow> bool" where
  "js_lt NaN b = False"
| "js_lt a NaN = False"
| "js_lt (Fin x) (Fin y) = (x < y)"
| "js_lt PosInf b = False"
| "js_lt a PosInf = True"
| "js_lt NegInf b = (b \<noteq> NegInf)"
| "js_lt a NegInf = False"

fun js_ge :: "jsnum \<Rightarrow> jsnum \<Rightarrow> bool" where
  "js_ge NaN b = False"
| "js_ge a NaN = False"
| "js_ge a b = (\<not> js_lt a b)"


text \<open>
  \<^verbatim>\<open>x.toFixed(f)\<close> for a finite \<open>x\<close> of magnitude below \<open>10\<^sup>2\<^sup>1\<close> (larger ones print in
  exponent form; every weight that reaches a call lies in \<open>[0, 1]\<close>): the integer \<open>n\<close> nearest
  to \<open>x * 10\<^sup>f\<close>, the larger one of two, printed with \<open>f\<close> digits after the point.
\<close>

definition toFixed :: "nat \<Rightarrow> rat \<Rightarrow> string" where
  "toFixed f x =
     (let n = nat \<lfloor>\<bar>x\<bar> * 10 ^ f + 1 / 2\<rfloor>;
          m = string_of_nat n;
          z = replicate (f + 1 - length m) CHR ''0'' @ m;
          k = length z - f
      in (if x < 0 then ''-'' else [])
         @ (if f = 0 then m else take k z @ ''.'' @ drop k z))"

fun number_toFixed :: "jsnum \<Rightarrow> nat \<Rightarrow> string" where
  "number_toFixed NaN f = ''NaN''"
| "number_toFixed PosInf f = ''Infinity''"
| "number_toFixed NegInf f = ''-Infinity''"
| "number_toFixed (Fin x) f = toFixed f x"

text \<open>
  \<^verbatim>\<open>Number(s)\<close> on a string (StringToNumber of ECMAScript): white space is stripped, the
  empty string is \<open>0\<close>, then a binary, octal or hexadecimal integer, or an optionally signed
  \<^verbatim>\<open>Infinity\<close> or decimal literal with optional fraction and exponent; anything else is
  \<open>NaN\<close>. The mathematical value is rounded to binary64.
\<close>

definition radix_digit :: "char \<Rightarrow> nat option" where
  "radix_digit c =
     map_of (zip ''0123456789abcdefABCDEF''
               [0, 1, 2, 3, 4, 5, 6, 7, 8, 9, 10, 11, 12, 13, 14, 15, 10, 11, 12, 13, 14, 15]) c"

definition radix_val :: "nat \<Rightarrow> string \<Rightarrow> nat option" where
  "radix_val base ds =
     (if ds \<noteq> [] \<and> list_all (\<lambda>c. case radix_digit c of Some d \<Rightarrow> d < base | None \<Rightarrow> False) ds
      then Some (foldl (\<lambda>a c. base * a + the (radix_digit c)) 0 ds)
      else None)"

definition nondecimal :: "string \<Rightarrow> nat option" where
  "nondecimal t =
     (case t of
        c0 # x # ds \<Rightarrow>
          if c0 \<noteq> CHR ''0'' then None
          else if x \<in> set ''xX'' then radix_val 16 ds
          else if x \<in> set ''oO'' then radix_val 8 ds
          else if x \<in> set ''bB'' then radix_val 2 ds
          else None
      | _ \<Rightarrow> None)"

definition split_sign :: "string \<Rightarrow> bool \<times> string" where
  "split_sign t =
     (case t of
        c # r \<Rightarrow> if c = CHR ''+'' then (False, r) else if c = CHR ''-'' then (True, r) else (False, t)
      | [] \<Rightarrow> (False, t))"

definition parse_exponent :: "string \<Rightarrow> int option" where
  "parse_exponent r =
     (case r of
        [] \<Rightarrow> Some 0
      | c # r1 \<Rightarrow>
          if c \<in> set ''eE'' then
            (let (neg, r2) = split_sign r1
             in if r2 \<noteq> [] \<and> list_all is_digit r2
                then Some (if neg then - int (digits_val 10 r2) else int (digits_val 10 r2))
                else None)
          else None)"

definition parse_unsigned_decimal :: "string \<Rightarrow> rat option" where
  "parse_unsigned_decimal u =
     (let ip = takeWhile is_digit u;
          r1 = dropWhile is_digit u;
          (fp, r2) = (case r1 of
                        c # t \<Rightarrow> if c = CHR ''.'' then (takeWhile is_digit t, dropWhile is_digit t)
                                 else ([], r1)
                      | [] \<Rightarrow> ([], r1))
      in if ip = [] \<and> fp = [] then None
         else case parse_exponent r2 of
                None \<Rightarrow> None
              | Some ex \<Rightarrow> Some (of_nat (digits_val 10 (ip @ fp)) * pow10 (ex - int (length fp))))"

definition StringToNumber :: "string \<Rightarrow> jsnum" where
  "StringToNumber s =
     (let t = trim s
      in if t = [] then Fin 0
         else case nondecimal t of
                Some n \<Rightarrow> double_of_rat (of_nat n)
              | None \<Rightarrow>
                  (let (neg, u) = split_sign t
                   in if u = ''Infinity'' then (if neg then NegInf else PosInf)
                      else case parse_unsigned_decimal u of
                             None \<Rightarrow> NaN
                           | Some mv \<Rightarrow> double_of_rat (if neg then - mv else mv)))"

text \<open>
  \<^verbatim>\<open>Number(value)\<close>. An object goes through \<^verbatim>\<open>valueOf\<close> and \<^verbatim>\<open>toString\<close>: a parsed object
  inherits both from \<^verbatim>\<open>Object.prototype\<close> and becomes \<^verbatim>\<open>"[object Object]"\<close>, hence \<open>NaN\<close>,
  unless it has an own property \<^verbatim>\<open>toString\<close>, which is not callable, and then the conversion
  throws a TypeError. An array is joined with commas (\<^verbatim>\<open>null\<close> and \<^verbatim>\<open>undefined\<close> elements
  as empty strings) and the result is parsed: two or more elements give a string with a
  comma, hence \<open>NaN\<close>; a single number element prints to a string that parses back to it.
\<close>

fun toString_throws :: "jsval \<Rightarrow> bool" where
  "toString_throws (JObj kvs) = (''toString'' \<in> set (map fst kvs))"
| "toString_throws (JArr xs) = list_ex toString_throws xs"
| "toString_throws v = False"

fun js_Number :: "jsval \<Rightarrow> js_error + jsnum" where
  "js_Number JUndefined = Inr NaN"
| "js_Number JNull = Inr (Fin 0)"
| "js_Number (JBool b) = Inr (Fin (if b then 1 else 0))"
| "js_Number (JNum n) = Inr n"
| "js_Number (JStr s) = Inr (StringToNumber s)"
| "js_Number (JObj kvs) =
     (if toString_throws (JObj kvs) then Inl (TypeError ''Cannot convert object to primitive value'')
      else Inr NaN)"
| "js_Number (JArr []) = Inr (Fin 0)"
| "js_Number (JArr [e]) =
     (case e of
        JUndefined \<Rightarrow> Inr (Fin 0)
      | JNull \<Rightarrow> Inr (Fin 0)
      | JBool b \<Rightarrow> Inr NaN
      | _ \<Rightarrow> js_Number e)"
| "js_Number (JArr (e1 # e2 # es)) =
     (if list_ex toString_throws (e1 # e2 # es)
      then Inl (TypeError ''Cannot convert object to primitive value'')
      else Inr NaN)"


section \<open>The shared contract validators (\<^verbatim>\<open>packages/shared/src/index.js\<close>)\<close>

definition FEATURE_TYPES :: "string list" where
  "FEATURE_TYPES = [''FACE'', ''STYLE'', ''MATERIAL'', ''COMPONENT'']"

definition TASK_STATUSES :: "string list" where
  "TASK_STATUSES = [''QUEUED'', ''PROCESSING'', ''SUCCESS'', ''FAILED'']"

text \<open>
  The validated contract. The object that \<^verbatim>\<open>validateGenerationContract\<close> returns has the five
  properties \<^verbatim>\<open>taskId\<close>, \<^verbatim>\<open>prompt\<close>, \<^verbatim>\<open>negativePrompt\<close>, \<^verbatim>\<open>reference\<close> and \<^verbatim>\<open>sources\<close>; the engine
  also reads \<^verbatim>\<open>contract.model\<close>, which is \<open>JUndefined\<close> on an object without that property.
\<close>

record reference =
  imageRef :: string
  weight :: jsnum

record source = reference +
  featureType :: string

record contract =
  taskId :: string
  prompt :: string
  negativePrompt :: string
  reference :: reference
  sources :: "source list"
  model :: jsval

definition ensureString :: "jsval \<Rightarrow> string \<Rightarrow> bool \<Rightarrow> js_error + string" where
  "ensureString value field allowEmpty =
     (case value of
        JStr s \<Rightarrow>
          (let trimmed = trim s
           in if \<not> allowEmpty \<and> length trimmed = 0
              then Inl (ContractValidationError ''EMPTY_STRING'' (field @ '' must not be empty'')
                          (JObj [(''field'', JStr field)]))
              else Inr trimmed)
      | _ \<Rightarrow>
          Inl (ContractValidationError ''INVALID_STRING'' (field @ '' must be a string'')
                 (JObj [(''field'', JStr field), (''receivedType'', JStr (typeof value))])))"

definition ensureWeight :: "jsval \<Rightarrow> string \<Rightarrow> js_error + jsnum" where
  "ensureWeight value field =
     (case (case value of JNum n \<Rightarrow> Inr n | _ \<Rightarrow> js_Number value) of
        Inl err \<Rightarrow> Inl err
      | Inr parsed \<Rightarrow>
          if \<not> isFinite parsed
          then Inl (ContractValidationError ''INVALID_WEIGHT'' (field @ '' must be a valid number'')
                      (JObj [(''field'', JStr field), (''received'', value)]))
          else if js_lt parsed (Fin 0) \<or> js_lt (Fin 1) parsed
          then Inl (ContractValidationError ''WEIGHT_OUT_OF_RANGE'' (field @ '' must be in range [0, 1]'')
                      (JObj [(''field'', JStr field), (''received'', JNum parsed)]))
          else Inr (StringToNumber (number_toFixed parsed 4)))"

text \<open>
  The rule for weights in the words of the specification: a finite number in \<open>[0, 1]\<close> is
  stored rounded to four decimal places (as the Number nearest to that decimal), a finite
  number outside is \<^verbatim>\<open>WEIGHT_OUT_OF_RANGE\<close>, and anything not finite is \<^verbatim>\<open>INVALID_WEIGHT\<close>.
\<close>

definition weight_rule :: "jsnum \<Rightarrow> string + jsnum" where
  "weight_rule w =
     (case w of
        Fin x \<Rightarrow> if 0 \<le> x \<and> x \<le> 1 then Inr (double_of_rat (round_to 4 x))
                 else Inl ''WEIGHT_OUT_OF_RANGE''
      | _ \<Rightarrow> Inl ''INVALID_WEIGHT'')"

definition validateReference :: "jsval \<Rightarrow> js_error + reference" where
  "validateReference value =
     (if \<not> isRecord value
      then Inl (ContractValidationError ''INVALID_REFERENCE'' ''reference must be an object''
                  (JObj [(''receivedType'', JStr (typeof value))]))
      else case ensureString (get value ''imageRef'') ''reference.imageRef'' False of
             Inl err \<Rightarrow> Inl err
           | Inr i \<Rightarrow>
               (case ensureWeight (get value ''weight'') ''reference.weight'' of
                  Inl err \<Rightarrow> Inl err
                | Inr w \<Rightarrow> Inr \<lparr>imageRef = i, weight = w\<rparr>))"

definition validateSource :: "jsval \<Rightarrow> nat \<Rightarrow> js_error + source" where
  "validateSource value index =
     (let here = ''sources['' @ string_of_nat index @ '']''
      in if \<not> isRecord value
         then Inl (ContractValidationError ''INVALID_SOURCE'' (here @ '' must be an object'')
                     (JObj [(''index'', JNum (Fin (of_nat index))),
                            (''receivedType'', JStr (typeof value))]))
         else case ensureString (get value ''featureType'') (here @ ''.featureType'') False of
                Inl err \<Rightarrow> Inl err
              | Inr ft \<Rightarrow>
                  (let ftype = toUpperCase ft
                   in if ftype \<notin> set FEATURE_TYPES
                      then Inl (ContractValidationError ''INVALID_FEATURE_TYPE''
                                  (here @ ''.featureType must be one of '' @ join '', '' FEATURE_TYPES)
                                  (JObj [(''index'', JNum (Fin (of_nat index))),
                                         (''received'', JStr ftype)]))
                      else case ensureString (get value ''imageRef'') (here @ ''.imageRef'') False of
                             Inl err \<Rightarrow> Inl err
                           | Inr i \<Rightarrow>
                               (case ensureWeight (get value ''weight'') (here @ ''.weight'') of
                                  Inl err \<Rightarrow> Inl err
                                | Inr w \<Rightarrow>
                                    Inr \<lparr>imageRef = i, weight = w, featureType = ftype\<rparr>)))"

text \<open>
  \<^verbatim>\<open>input.sources.map((source, index) => validateSource(source, index))\<close>: the elements are
  validated from index \<open>index\<close> on, in array order, and the first throw ends the loop.
\<close>

fun validateSources :: "jsval list \<Rightarrow> nat \<Rightarrow> js_error + source list" where
  "validateSources [] index = Inr []"
| "validateSources (v # vs) index =
     (case validateSource v index of
        Inl err \<Rightarrow> Inl err
      | Inr s \<Rightarrow>
          (case validateSources vs (Suc index) of
             Inl err \<Rightarrow> Inl err
           | Inr ss \<Rightarrow> Inr (s # ss)))"

definition validateGenerationContract :: "jsval \<Rightarrow> js_error + contract" where
  "validateGenerationContract input =
     (if \<not> isRecord input
      then Inl (ContractValidationError ''INVALID_CONTRACT'' ''Generation Contract must be an object''
                  (JObj []))
      else case ensureString (get input ''taskId'') ''taskId'' False of
        Inl err \<Rightarrow> Inl err
      | Inr tid \<Rightarrow>
      (case ensureString (get input ''prompt'') ''prompt'' False of
        Inl err \<Rightarrow> Inl err
      | Inr pr \<Rightarrow>
      (case (if get input ''negativePrompt'' = JUndefined then Inr []
             else ensureString (get input ''negativePrompt'') ''negativePrompt'' True) of
        Inl err \<Rightarrow> Inl err
      | Inr neg \<Rightarrow>
      (case validateReference (get input ''reference'') of
        Inl err \<Rightarrow> Inl err
      | Inr ref \<Rightarrow>
      (case get input ''sources'' of
        JArr vs \<Rightarrow>
          if length vs = 0
          then Inl (ContractValidationError ''INVALID_SOURCES'' ''sources must be a non-empty array''
                      (JObj []))
          else (case validateSources vs 0 of
                  Inl err \<Rightarrow> Inl err
                | Inr srcs \<Rightarrow>
                    Inr \<lparr>taskId = tid, prompt = pr, negativePrompt = neg,
                         reference = ref, sources = srcs, model = JUndefined\<rparr>)
      | _ \<Rightarrow>
          Inl (ContractValidationError ''INVALID_SOURCES'' ''sources must be a non-empty array''
                 (JObj [])))))))"

text \<open>The returned contract as the JavaScript object it is, property by property.\<close>

definition reference_js :: "reference \<Rightarrow> jsval" where
  "reference_js r = JObj [(''imageRef'', JStr (imageRef r)), (''weight'', JNum (weight r))]"

definition source_js :: "source \<Rightarrow> jsval" where
  "source_js s =
     JObj [(''imageRef'', JStr (imageRef s)), (''featureType'', JStr (featureType s)),
           (''weight'', JNum (weight s))]"

definition contract_js :: "contract \<Rightarrow> jsval" where
  "contract_js c =
     JObj ([(''taskId'', JStr (taskId c)), (''prompt'', JStr (prompt c)),
            (''negativePrompt'', JStr (negativePrompt c)),
            (''reference'', reference_js (reference c)),
            (''sources'', JArr (map source_js (sources c)))]
           @ (if model c = JUndefined then [] else [(''model'', model c)]))"

text \<open>
  \<^verbatim>\<open>typeof v === "string" && v.trim().length > 0 ? v.trim() : null\<close>, the expression that
  \<^verbatim>\<open>createStatusResponse\<close> applies to \<^verbatim>\<open>outputUrl\<close>, \<^verbatim>\<open>errorCode\<close> and \<^verbatim>\<open>message\<close>.
\<close>

definition trimmed_or_null :: "jsval \<Rightarrow> jsval" where
  "trimmed_or_null v =
     (case v of
        JStr s \<Rightarrow> if length (trim s) > 0 then JStr (trim s) else JNull
      | _ \<Rightarrow> JNull)"

definition nonblank_string :: "jsval \<Rightarrow> bool" where
  "nonblank_string item = (case item of JStr s \<Rightarrow> length (trim s) > 0 | _ \<Rightarrow> False)"

text \<open>\<open>now\<close> is the value of \<^verbatim>\<open>new Date().toISOString()\<close> at the call.\<close>

definition createStatusResponse :: "string \<Rightarrow> jsval \<Rightarrow> js_error + jsval" where
  "createStatusResponse now input =
     (if \<not> isRecord input
      then Inl (ContractValidationError ''INVALID_STATUS'' ''Status Response must be an object''
                  (JObj []))
      else case ensureString (get input ''taskId'') ''taskId'' False of
        Inl err \<Rightarrow> Inl err
      | Inr tid \<Rightarrow>
      (case ensureString (get input ''status'') ''status'' False of
        Inl err \<Rightarrow> Inl err
      | Inr st \<Rightarrow>
          (let status = toUpperCase st
           in if status \<notin> set TASK_STATUSES
              then Inl (ContractValidationError ''INVALID_STATUS_VALUE''
                          (''status must be one of '' @ join '', '' TASK_STATUSES)
                          (JObj [(''received'', JStr status)]))
              else Inr (JObj
                     [(''taskId'', JStr tid),
                      (''status'', JStr status),
                      (''outputUrl'', trimmed_or_null (get input ''outputUrl'')),
                      (''errorCode'', trimmed_or_null (get input ''errorCode'')),
                      (''message'', trimmed_or_null (get input ''message'')),
                      (''warnings'',
                         (case get input ''warnings'' of
                            JArr items \<Rightarrow> JArr (filter nonblank_string items)
                          | _ \<Rightarrow> JArr [])),
                      (''updatedAt'',
                         (case get input ''updatedAt'' of
                            JStr u \<Rightarrow> if length u > 0 then JStr u else JStr now
                          | _ \<Rightarrow> JStr now))]))))"

fun serializeError :: "js_error \<Rightarrow> jsval" where
  "serializeError (ContractValidationError code message details) =
     JObj [(''code'', JStr code), (''message'', JStr message), (''details'', details)]"
| "serializeError (TypeError message) =
     JObj [(''code'', JStr ''UNEXPECTED_ERROR''), (''message'', JStr message)]"
| "serializeError (Error message) =
     JObj [(''code'', JStr ''UNEXPECTED_ERROR''), (''message'', JStr message)]"
| "serializeError (HttpError statusCode message code) =
     JObj [(''code'', JStr ''UNEXPECTED_ERROR''), (''message'', JStr message)]"

subsection \<open>Prompt cross-references\<close>

text \<open>
  Case-insensitive matching of a regular expression without the \<^verbatim>\<open>u\<close> flag compares the
  canonical forms of the code units. The canonical form of an ASCII letter is its upper
  case, every other ASCII character is its own canonical form, and the canonical form of a
  code unit outside ASCII is never an ASCII character. The patterns below consist of ASCII
  characters, so a code unit matches a pattern character exactly if the two are equal or
  are the same ASCII letter in either case.
\<close>

definition ci_eq :: "char \<Rightarrow> char \<Rightarrow> bool" where
  "ci_eq a b = (upper_char a = upper_char b)"


text \<open>A literal pattern matched at the start of a string; the result is the rest.\<close>

fun match_ci :: "string \<Rightarrow> string \<Rightarrow> string option" where
  "match_ci [] s = Some s"
| "match_ci (p # ps) [] = None"
| "match_ci (p # ps) (c # cs) = (if ci_eq p c then match_ci ps cs else None)"

text \<open>
  \<^verbatim>\<open>/\[Source\s+(\d+)\]/i\<close> matched at the start of a string: the captured digits and the
  rest after the closing bracket. White space, digits and the bracket exclude one another,
  so the greedy match is the only one.
\<close>

definition match_source :: "string \<Rightarrow> (string \<times> string) option" where
  "match_source s =
     (case match_ci ''[Source'' s of
        None \<Rightarrow> None
      | Some r1 \<Rightarrow>
          (let r2 = dropWhile is_ws r1;
               ds = takeWhile is_digit r2;
               r3 = dropWhile is_digit r2
           in if takeWhile is_ws r1 = [] \<or> ds = [] then None
              else case r3 of
                     c # r4 \<Rightarrow> if c = CHR '']'' then Some (ds, r4) else None
                   | [] \<Rightarrow> None))"

lemma match_ci_length: "match_ci p s = Some r \<Longrightarrow> length r + length p = length s"
  by (induction p s rule: match_ci.induct) (auto split: if_splits)

lemma match_source_shorter: "match_source s = Some (ds, r) \<Longrightarrow> length r < length s"
proof -
  assume m: "match_source s = Some (ds, r)"
  then obtain r1 where r1: "match_ci ''[Source'' s = Some r1"
    by (auto simp: match_source_def split: option.splits)
  have "length (dropWhile is_digit (dropWhile is_ws r1)) \<le> length r1"
    by (meson length_dropWhile_le order_trans)
  moreover from m r1 have "length r < length (dropWhile is_digit (dropWhile is_ws r1))"
    by (auto simp: match_source_def Let_def split: if_splits list.splits)
  ultimately show ?thesis using match_ci_length[OF r1] by simp
qed

text \<open>
  \<^verbatim>\<open>[...s.matchAll(/\[Source\s+(\d+)\]/gi)]\<close>, as the list of the captured groups: the
  search goes on after each match, and one character further where there is none.
\<close>

function matchAll_source :: "string \<Rightarrow> string list" where
  "matchAll_source [] = []"
| "matchAll_source (c # cs) =
     (case match_source (c # cs) of
        Some (ds, rest) \<Rightarrow> ds # matchAll_source rest
      | None \<Rightarrow> matchAll_source cs)"
  by pat_completeness auto
termination
  by (relation "measure length") (auto dest: match_source_shorter)

text \<open>\<^verbatim>\<open>/\[Reference\]/i.test(s)\<close>.\<close>

fun test_reference :: "string \<Rightarrow> bool" where
  "test_reference [] = False"
| "test_reference (c # cs) = (match_ci ''[Reference]'' (c # cs) \<noteq> None \<or> test_reference cs)"

text \<open>\<^verbatim>\<open>[...new Set(xs)]\<close>: the distinct elements in the order of their first occurrence.\<close>

definition set_spread :: "'a list \<Rightarrow> 'a list" where
  "set_spread xs = foldl (\<lambda>acc x. if x \<in> set acc then acc else acc @ [x]) [] xs"

record promptIndexing =
  usesReference :: bool
  sourceIndexes :: "jsnum list"
  outOfRange :: "jsnum list"

definition extractPromptIndexing :: "jsval \<Rightarrow> jsnum \<Rightarrow> js_error + promptIndexing" where
  "extractPromptIndexing prompt_arg sourceCount =
     (case ensureString prompt_arg ''prompt'' True of
        Inl err \<Rightarrow> Inl err
      | Inr normalizedPrompt \<Rightarrow>
          (let indexes = map StringToNumber (matchAll_source normalizedPrompt);
               beyond = filter (\<lambda>index. \<not> isInteger index \<or> js_lt index (Fin 0)
                                          \<or> js_ge index sourceCount) indexes
           in Inr \<lparr>usesReference = test_reference normalizedPrompt,
                   sourceIndexes = set_spread indexes,
                   outOfRange = set_spread beyond\<rparr>))"

definition promptIndexing_js :: "promptIndexing \<Rightarrow> jsval" where
  "promptIndexing_js p =
     JObj [(''usesReference'', JBool (usesReference p)),
           (''sourceIndexes'', JArr (map JNum (sourceIndexes p))),
           (''outOfRange'', JArr (map JNum (outOfRange p)))]"

section \<open>The generation engine (\<^verbatim>\<open>packages/engine/src/index.js\<close>)\<close>

text \<open>
  What the engine reads from its surroundings: the environment variables, and the answer of
  \<^verbatim>\<open>fetch(imageRef)\<close> for an http(s) image reference (a rejection, or a response with its
  \<^verbatim>\<open>ok\<close> flag, status, \<^verbatim>\<open>content-type\<close> header and body, the body in base64).
\<close>

record fetched =
  ok :: bool
  status :: nat
  content_type :: "string option"
  body_base64 :: string

record engine_env =
  GEMINI_API_KEY :: "string option"
  GEMINI_MODEL :: "string option"
  fetch_image :: "string \<Rightarrow> js_error + fetched"

definition DEFAULT_MODEL :: "engine_env \<Rightarrow> string" where
  "DEFAULT_MODEL env =
     (case GEMINI_MODEL env of
        Some m \<Rightarrow> if m = [] then ''gemini-3-pro-image-preview'' else m
      | None \<Rightarrow> ''gemini-3-pro-image-preview'')"

definition FEATURE_HINTS :: "string \<rightharpoonup> string" where
  "FEATURE_HINTS =
     map_of [(''FACE'', ''Preserve identity and facial consistency.''),
             (''STYLE'', ''Transfer visual style, color language, and rendering tone.''),
             (''MATERIAL'', ''Transfer material and texture fidelity.''),
             (''COMPONENT'', ''Transfer specific components or accessories.'')]"

fun truthy :: "jsval \<Rightarrow> bool" where
  "truthy JUndefined = False"
| "truthy JNull = False"
| "truthy (JBool b) = b"
| "truthy (JNum n) = (n \<noteq> NaN \<and> n \<noteq> Fin 0)"
| "truthy (JStr s) = (s \<noteq> [])"
| "truthy (JArr xs) = True"
| "truthy (JObj kvs) = True"

definition js_or :: "jsval \<Rightarrow> jsval \<Rightarrow> jsval" where
  "js_or a b = (if truthy a then a else b)"

text \<open>
  \<^verbatim>\<open>dataUrl.match(/^data:([^;,]+);base64,(.+)$/)\<close>: the first group cannot contain the
  semicolon that must follow it, so it is the longest run without \<^verbatim>\<open>;\<close> and \<^verbatim>\<open>,\<close>; the
  second group is the non-empty rest, free of line terminators.
\<close>

definition parseDataUrl :: "string \<Rightarrow> js_error + jsval" where
  "parseDataUrl dataUrl =
     (let bad = Inl (Error ''Invalid data URL imageRef. Expected data:<mime>;base64,<data>.'')
      in if \<not> startsWith dataUrl ''data:'' then bad
         else let r = drop 5 dataUrl;
                  mime = takeWhile (\<lambda>c. c \<notin> set '';,'') r;
                  r1 = dropWhile (\<lambda>c. c \<notin> set '';,'') r
              in if mime = [] \<or> \<not> startsWith r1 '';base64,'' then bad
                 else let payload = drop 8 r1
                      in if payload = [] \<or> list_ex (\<lambda>c. c \<in> set [CHR 0x0A, CHR 0x0D]) payload
                         then bad
                         else Inr (JObj [(''mimeType'', JStr mime), (''data'', JStr payload)]))"

definition is_http_url :: "string \<Rightarrow> bool" where
  "is_http_url s = (match_ci ''http://'' s \<noteq> None \<or> match_ci ''https://'' s \<noteq> None)"

definition imageRefToInlineData :: "engine_env \<Rightarrow> string \<Rightarrow> js_error + jsval" where
  "imageRefToInlineData env ref =
     (if startsWith ref ''data:'' then parseDataUrl ref
      else if is_http_url ref then
        (case fetch_image env ref of
           Inl err \<Rightarrow> Inl err
         | Inr response \<Rightarrow>
             if \<not> ok response
             then Inl (Error (''Failed to download imageRef: '' @ ref @ '' (''
                               @ string_of_nat (status response) @ '')''))
             else let mimeType = (case content_type response of
                                    Some t \<Rightarrow> if t = [] then ''image/png'' else t
                                  | None \<Rightarrow> ''image/png'')
                  in Inr (JObj [(''mimeType'', JStr (takeWhile (\<lambda>c. c \<noteq> CHR '';'') mimeType)),
                                (''data'', JStr (body_base64 response))]))
      else Inl (Error ''Unsupported imageRef format. Use data URL or http(s) URL.''))"

definition feature_hint :: "string \<Rightarrow> string" where
  "feature_hint ft = (case FEATURE_HINTS ft of Some h \<Rightarrow> h | None \<Rightarrow> ''undefined'')"

definition createSystemPrompt :: "contract \<Rightarrow> string" where
  "createSystemPrompt c =
     (let sourceHints =
            join [CHR 0x0A]
              (map (\<lambda>(index, s).
                      ''Source '' @ string_of_nat index @ '': type='' @ featureType s
                      @ '', weight='' @ number_toFixed (weight s) 2 @ ''. ''
                      @ feature_hint (featureType s))
                   (enumerate 0 (sources c)))
      in join [CHR 0x0A]
           [''You are a multi-reference image editing and generation engine.'',
            ''Apply strong composition constraints from Reference image.'',
            ''Apply weighted multi-source feature fusion from Source images.'',
            ''Keep scene physically coherent with minimal artifacts.'',
            ''If conflicts happen, prioritize higher weight source features.'',
            [],
            ''Feature plan:'',
            sourceHints])"

definition buildWorkflowGraph :: "engine_env \<Rightarrow> contract \<Rightarrow> js_error + jsval" where
  "buildWorkflowGraph env c =
     (case extractPromptIndexing (JStr (prompt c)) (Fin (of_nat (length (sources c)))) of
        Inl err \<Rightarrow> Inl err
      | Inr indexing \<Rightarrow>
          Inr (JObj
            [(''name'', JStr ''MEIE-DualTrack-Gemini''),
             (''version'', JStr ''0.2.0''),
             (''model'', js_or (model c) (JStr (DEFAULT_MODEL env))),
             (''promptIndexing'', promptIndexing_js indexing),
             (''nodes'', JArr
                [JObj [(''id'', JStr ''reference''),
                       (''role'', JStr ''REFERENCE''),
                       (''engineNode'', JStr ''composition_constraint''),
                       (''weight'', JNum (weight (reference c)))],
                 JObj [(''id'', JStr ''feature-track''),
                       (''role'', JStr ''TRACK_B''),
                       (''engineNode'', JStr ''multi_source_feature_fusion''),
                       (''sources'', JArr
                          (map (\<lambda>(index, s).
                                  JObj [(''id'', JStr (''source-'' @ string_of_nat index)),
                                        (''featureType'', JStr (featureType s)),
                                        (''weight'', JNum (weight s))])
                               (enumerate 0 (sources c))))],
                 JObj [(''id'', JStr ''gemini-generate''),
                       (''role'', JStr ''MERGE''),
                       (''engineNode'', JStr ''generateContent''),
                       (''prompt'', JStr (prompt c))]])]))"

text \<open>The images of the sources, resolved one after the other; the first failure ends the loop.\<close>

fun resolve_sources :: "engine_env \<Rightarrow> source list \<Rightarrow> js_error + jsval list" where
  "resolve_sources env [] = Inr []"
| "resolve_sources env (s # ss) =
     (case imageRefToInlineData env (imageRef s) of
        Inl err \<Rightarrow> Inl err
      | Inr d \<Rightarrow>
          (case resolve_sources env ss of
             Inl err \<Rightarrow> Inl err
           | Inr ds \<Rightarrow> Inr (d # ds)))"

definition userPrompt :: "contract \<Rightarrow> string" where
  "userPrompt c =
     join [CHR 0x0A]
       (filter (\<lambda>line. line \<noteq> [])
          ([''Task ID: '' @ taskId c,
            ''Reference weight: '' @ number_toFixed (weight (reference c)) 2]
           @ map (\<lambda>(index, s).
                    ''Source '' @ string_of_nat index @ '' -> featureType='' @ featureType s
                    @ '', weight='' @ number_toFixed (weight s) 2)
                 (enumerate 0 (sources c))
           @ [[],
              ''User prompt: '' @ prompt c,
              if negativePrompt c \<noteq> [] then ''Negative prompt: '' @ negativePrompt c else []]))"

text \<open>The \<^verbatim>\<open>parts\<close> of the single user turn, from the resolved images.\<close>

definition request_parts :: "contract \<Rightarrow> jsval \<Rightarrow> jsval list \<Rightarrow> jsval list" where
  "request_parts c referenceInlineData sourceInlineDataList =
     [JObj [(''text'', JStr (join [CHR 0x0A]
                [''Reference image below is composition anchor.'',
                 ''Apply source image features with weighted fusion.'',
                 [],
                 userPrompt c]))],
      JObj [(''inline_data'', referenceInlineData)]]
     @ map (\<lambda>(index, inlineData). JObj [(''text'', JStr (''Source '' @ string_of_nat index @ '' image''))])
           (enumerate 0 sourceInlineDataList)
     @ map (\<lambda>inlineData. JObj [(''inline_data'', inlineData)]) sourceInlineDataList"

text \<open>
  \<^verbatim>\<open>runDualTrackGeneration\<close> up to the call of the provider: the request body it has
  assembled, or the error thrown before. (The stage callbacks are effects on the task
  store and belong to the server below.)
\<close>

definition runDualTrackGeneration_request :: "engine_env \<Rightarrow> contract \<Rightarrow> js_error + jsval" where
  "runDualTrackGeneration_request env c =
     (case GEMINI_API_KEY env of
        None \<Rightarrow> Inl (Error ''Missing GEMINI_API_KEY environment variable.'')
      | Some apiKey \<Rightarrow>
      if apiKey = [] then Inl (Error ''Missing GEMINI_API_KEY environment variable.'')
      else
      (case buildWorkflowGraph env (c\<lparr>model := js_or (model c) (JStr (DEFAULT_MODEL env))\<rparr>) of
        Inl err \<Rightarrow> Inl err
      | Inr workflowGraph \<Rightarrow>
      (case imageRefToInlineData env (imageRef (reference c)) of
        Inl err \<Rightarrow> Inl err
      | Inr referenceInlineData \<Rightarrow>
      (case resolve_sources env (sources c) of
        Inl err \<Rightarrow> Inl err
      | Inr sourceInlineDataList \<Rightarrow>
          Inr (JObj
            [(''system_instruction'',
                JObj [(''parts'', JArr [JObj [(''text'', JStr (createSystemPrompt c))]])]),
             (''contents'',
                JArr [JObj [(''role'', JStr ''user''),
                            (''parts'', JArr (request_parts c referenceInlineData
                                                sourceInlineDataList))]]),
             (''generationConfig'',
                JObj [(''responseModalities'', JArr [JStr ''IMAGE'', JStr ''TEXT''])])])))))"

section \<open>The task server (\<^verbatim>\<open>packages/server/src/index.js\<close>)\<close>

text \<open>
  The module state: the \<^verbatim>\<open>tasks\<close> map, the \<^verbatim>\<open>sseClients\<close> map (a connection is a number),
  and, made explicit, what the event loop holds: the events written to the connections so
  far, the eviction timers that have not fired, and the \<^verbatim>\<open>runTask\<close> invocations that are
  suspended at \<^verbatim>\<open>await runDualTrackGeneration(...)\<close>, each by its task id.
  A task is the object that \<^verbatim>\<open>createTaskRecord\<close> builds and \<^verbatim>\<open>updateTask\<close> replaces.
\<close>

record server =
  tasks :: "string \<rightharpoonup> jsval"
  sseClients :: "string \<rightharpoonup> nat list"
  sent :: "(nat \<times> string \<times> jsval) list"
  timers :: "string list"
  running :: "string list"

definition initial_server :: server where
  "initial_server = \<lparr>tasks = Map.empty, sseClients = Map.empty, sent = [], timers = [], running = []\<rparr>"

text \<open>Writing a property: an existing key keeps its place, a new one goes last.\<close>

fun put :: "string \<Rightarrow> jsval \<Rightarrow> (string \<times> jsval) list \<Rightarrow> (string \<times> jsval) list" where
  "put k v [] = [(k, v)]"
| "put k v ((k', v') # kvs) = (if k' = k then (k, v) # kvs else (k', v') # put k v kvs)"

text \<open>Object spread \<^verbatim>\<open>{...target, ...src}\<close> on property lists.\<close>

definition assign :: "(string \<times> jsval) list \<Rightarrow> (string \<times> jsval) list \<Rightarrow> (string \<times> jsval) list" where
  "assign target src = foldl (\<lambda>acc (k, v). put k v acc) target src"

fun props :: "jsval \<Rightarrow> (string \<times> jsval) list" where
  "props (JObj kvs) = kvs"
| "props v = []"

text \<open>\<^verbatim>\<open>v ?? null\<close>.\<close>

definition or_null :: "jsval \<Rightarrow> jsval" where
  "or_null v = (if v = JUndefined \<or> v = JNull then JNull else v)"

definition toTaskView :: "string \<Rightarrow> jsval \<Rightarrow> js_error + jsval" where
  "toTaskView now task =
     (case createStatusResponse now task of
        Inl err \<Rightarrow> Inl err
      | Inr view \<Rightarrow>
          Inr (JObj (assign (props view)
                       [(''workflowGraph'', or_null (get task ''workflowGraph'')),
                        (''progress'', or_null (get task ''progress''))])))"

definition broadcastTaskEvent :: "string \<Rightarrow> string \<Rightarrow> jsval \<Rightarrow> server \<Rightarrow> server" where
  "broadcastTaskEvent tid event payload srv =
     (case sseClients srv tid of
        None \<Rightarrow> srv
      | Some clients \<Rightarrow> srv\<lparr>sent := sent srv @ map (\<lambda>client. (client, event, payload)) clients\<rparr>)"

text \<open>
  \<^verbatim>\<open>updateTask\<close>: the state after the call, and the exception if \<^verbatim>\<open>toTaskView\<close> threw (the
  task has been replaced by then).
\<close>

definition updateTask ::
  "string \<Rightarrow> string \<Rightarrow> (string \<times> jsval) list \<Rightarrow> server \<Rightarrow> server \<times> js_error option" where
  "updateTask now tid patch srv =
     (case tasks srv tid of
        None \<Rightarrow> (srv, None)
      | Some prev \<Rightarrow>
          (let next = JObj (assign (assign (props prev) patch) [(''updatedAt'', JStr now)]);
               srv1 = srv\<lparr>tasks := (tasks srv)(tid \<mapsto> next)\<rparr>
           in case toTaskView now next of
                Inl err \<Rightarrow> (srv1, Some err)
              | Inr view \<Rightarrow> (broadcastTaskEvent tid ''status'' view srv1, None)))"

definition createTaskRecord :: "string \<Rightarrow> contract \<Rightarrow> jsval" where
  "createTaskRecord now c =
     JObj [(''taskId'', JStr (taskId c)),
           (''contract'', contract_js c),
           (''status'', JStr ''QUEUED''),
           (''outputUrl'', JNull),
           (''errorCode'', JNull),
           (''message'', JNull),
           (''warnings'', JArr []),
           (''workflowGraph'', JNull),
           (''progress'', JNull),
           (''updatedAt'', JStr now)]"

text \<open>What the executor resolves with, as far as \<^verbatim>\<open>runTask\<close> reads it.\<close>

record generation_result =
  outputExtension :: string
  warnings :: "string list"
  workflowGraph :: jsval

text \<open>
  The handlers below return the successive states of the module, one for each write to the
  \<^verbatim>\<open>tasks\<close> map, in order; the last one is the state at the end of the turn.

  \<^verbatim>\<open>runTask\<close> from its call to its suspension at the \<^verbatim>\<open>await\<close>: the task becomes
  \<^verbatim>\<open>PROCESSING\<close>, and the executor runs up to its first \<^verbatim>\<open>await\<close>, reporting its first stage
  unless it has thrown before.
\<close>

definition runTask_start :: "engine_env \<Rightarrow> string \<Rightarrow> contract \<Rightarrow> server \<Rightarrow> server list" where
  "runTask_start env now c srv =
     (let tid = taskId c
      in case tasks srv tid of
           None \<Rightarrow> []
         | Some task \<Rightarrow>
             (case updateTask now tid
                     [(''status'', JStr ''PROCESSING''),
                      (''errorCode'', JNull),
                      (''message'', JNull),
                      (''outputUrl'', JNull),
                      (''progress'', JObj [(''stage'', JStr ''QUEUED''), (''progress'', JNum (Fin 0))])]
                     srv of
                (s1, Some err) \<Rightarrow> [s1]
              | (s1, None) \<Rightarrow>
                  (let suspended = s1\<lparr>running := running s1 @ [tid]\<rparr>;
                       key = (case GEMINI_API_KEY env of Some k \<Rightarrow> k | None \<Rightarrow> [])
                   in if key = [] then [suspended]
                      else case buildWorkflowGraph env
                                  (c\<lparr>model := js_or (model c) (JStr (DEFAULT_MODEL env))\<rparr>) of
                             Inl err \<Rightarrow> [suspended]
                           | Inr graph \<Rightarrow>
                               [s1, fst (updateTask now tid
                                           [(''progress'',
                                             JObj [(''stage'', JStr ''REFERENCE_PREPROCESS''),
                                                   (''progress'', JNum (double_of_rat (2 / 10)))])]
                                           suspended)])))"

text \<open>The \<^verbatim>\<open>catch\<close> block of \<^verbatim>\<open>runTask\<close>.\<close>

definition runTask_failed :: "string \<Rightarrow> string \<Rightarrow> js_error \<Rightarrow> server \<Rightarrow> server list" where
  "runTask_failed now tid err srv =
     (let details = serializeError err
      in [fst (updateTask now tid
                 [(''status'', JStr ''FAILED''),
                  (''outputUrl'', JNull),
                  (''errorCode'', get details ''code''),
                  (''message'', get details ''message'')]
                 srv)])"

text \<open>
  \<^verbatim>\<open>runTask\<close> after the executor has resolved: the output file is written (\<open>write_error\<close> is
  the rejection of \<^verbatim>\<open>writeFile\<close>, if any), then the task becomes \<^verbatim>\<open>SUCCESS\<close>; whatever is
  thrown on the way is caught.
\<close>

definition runTask_resolved ::
  "string \<Rightarrow> string \<Rightarrow> generation_result \<Rightarrow> js_error option \<Rightarrow> server \<Rightarrow> server list" where
  "runTask_resolved now tid result write_error srv =
     (case write_error of
        Some err \<Rightarrow> runTask_failed now tid err srv
      | None \<Rightarrow>
          (let filename = tid @ ''.'' @ outputExtension result
           in case updateTask now tid
                     [(''status'', JStr ''SUCCESS''),
                      (''outputUrl'', JStr (''/outputs/'' @ filename)),
                      (''errorCode'', JNull),
                      (''message'', if length (warnings result) > 0
                                    then JStr ''completed_with_warnings'' else JNull),
                      (''warnings'', JArr (map JStr (warnings result))),
                      (''workflowGraph'', workflowGraph result),
                      (''progress'', JObj [(''stage'', JStr ''DONE''), (''progress'', JNum (Fin 1))])]
                     srv of
                (s1, None) \<Rightarrow> [s1]
              | (s1, Some err) \<Rightarrow> s1 # runTask_failed now tid err s1))"

text \<open>The \<^verbatim>\<open>catch\<close> block of \<^verbatim>\<open>requestHandler\<close>: status code and body of the error response.\<close>

fun error_response :: "js_error \<Rightarrow> nat \<times> jsval" where
  "error_response (HttpError statusCode message code) =
     (statusCode, JObj [(''error'', JObj [(''code'', JStr code), (''message'', JStr message)])])"
| "error_response (ContractValidationError code message details) =
     (400, JObj [(''error'', serializeError (ContractValidationError code message details))])"
| "error_response err = (500, JObj [(''error'', serializeError err)])"

text \<open>
  \<^verbatim>\<open>POST /api/tasks\<close> with the parsed body: the response and the successive states.
  \<open>enc\<close> is \<^verbatim>\<open>encodeURIComponent\<close>.
\<close>

definition post_tasks ::
  "(string \<Rightarrow> string) \<Rightarrow> engine_env \<Rightarrow> string \<Rightarrow> jsval \<Rightarrow> server \<Rightarrow> (nat \<times> jsval) \<times> server list" where
  "post_tasks enc env now body srv =
     (case validateGenerationContract body of
        Inl err \<Rightarrow> (error_response err, [])
      | Inr c \<Rightarrow>
          if tasks srv (taskId c) \<noteq> None
          then (error_response
                  (HttpError 409 (''taskId '' @ taskId c @ '' already exists'') ''TASK_EXISTS''), [])
          else let record = createTaskRecord now c;
                   s1 = srv\<lparr>tasks := (tasks srv)(taskId c \<mapsto> record),
                             timers := timers srv @ [taskId c]\<rparr>
               in case toTaskView now record of
                    Inl err \<Rightarrow> (error_response err, [s1])
                  | Inr view \<Rightarrow>
                      ((202, JObj (assign (props view)
                                     [(''statusUrl'', JStr (''/api/tasks/'' @ enc (taskId c))),
                                      (''streamUrl'',
                                         JStr (''/api/tasks/'' @ enc (taskId c) @ ''/events''))])),
                       s1 # runTask_start env now c s1))"

text \<open>
  What can happen to the module, one turn of the event loop each: a \<^verbatim>\<open>POST /api/tasks\<close>;
  a stage callback, the resolution (with the outcome of writing the file) or the rejection
  of a suspended executor; an eviction timer firing; a client opening or closing the event
  stream of a task. The first component of most events is the time of the turn.
\<close>

datatype event =
    Post string jsval
  | Stage string string jsval
  | Resolved string string generation_result "js_error option"
  | Rejected string string js_error
  | Evict string
  | Subscribe string string nat
  | Unsubscribe string nat

fun fire :: "(string \<Rightarrow> string) \<Rightarrow> engine_env \<Rightarrow> event \<Rightarrow> server \<Rightarrow> server list" where
  "fire enc env (Post now body) srv = snd (post_tasks enc env now body srv)"
| "fire enc env (Stage now tid stage) srv =
     (if tid \<in> set (running srv) then [fst (updateTask now tid [(''progress'', stage)] srv)] else [])"
| "fire enc env (Resolved now tid result write_error) srv =
     (if tid \<in> set (running srv)
      then runTask_resolved now tid result write_error (srv\<lparr>running := remove1 tid (running srv)\<rparr>)
      else [])"
| "fire enc env (Rejected now tid err) srv =
     (if tid \<in> set (running srv)
      then runTask_failed now tid err (srv\<lparr>running := remove1 tid (running srv)\<rparr>)
      else [])"
| "fire enc env (Evict tid) srv =
     (if tid \<in> set (timers srv)
      then [srv\<lparr>tasks := (tasks srv)(tid := None), timers := remove1 tid (timers srv)\<rparr>]
      else [])"
| "fire enc env (Subscribe now tid client) srv =
     (case tasks srv tid of
        None \<Rightarrow> []
      | Some task \<Rightarrow>
          (case toTaskView now task of
             Inl err \<Rightarrow> []
           | Inr view \<Rightarrow>
               [srv\<lparr>sent := sent srv @ [(client, ''status'', view)],
                     sseClients := (sseClients srv)
                        (tid \<mapsto> (case sseClients srv tid of Some cs \<Rightarrow> cs | None \<Rightarrow> [])
                                 @ [client])\<rparr>]))"
| "fire enc env (Unsubscribe tid client) srv =
     (case sseClients srv tid of
        None \<Rightarrow> []
      | Some entries \<Rightarrow>
          (let rest = removeAll client entries
           in [srv\<lparr>sseClients := (sseClients srv)(tid := (if rest = [] then None else Some rest))\<rparr>]))"

text \<open>The states that a sequence of events goes through after \<open>srv\<close>.\<close>

fun trace :: "(string \<Rightarrow> string) \<Rightarrow> engine_env \<Rightarrow> event list \<Rightarrow> server \<Rightarrow> server list" where
  "trace enc env [] srv = []"
| "trace enc env (e # es) srv =
     (let states = fire enc env e srv
      in states @ trace enc env es (last (srv # states)))"

text \<open>The state that a sequence of events leaves behind.\<close>

definition final_state ::
  "(string \<Rightarrow> string) \<Rightarrow> engine_env \<Rightarrow> event list \<Rightarrow> server \<Rightarrow> server" where
  "final_state enc env evs srv = last (srv # trace enc env evs srv)"

definition status_of :: "server \<Rightarrow> string \<Rightarrow> jsval option" where
  "status_of srv tid = map_option (\<lambda>task. get task ''status'') (tasks srv tid)"

text \<open>
  Two successive observations of the status of one task id that the forward-only path
  allows: nothing changes; a task appears as \<^verbatim>\<open>QUEUED\<close>; a task is evicted; \<^verbatim>\<open>QUEUED\<close> becomes
  \<^verbatim>\<open>PROCESSING\<close>; \<^verbatim>\<open>PROCESSING\<close> becomes \<^verbatim>\<open>SUCCESS\<close> or \<^verbatim>\<open>FAILED\<close>.
\<close>

definition forward :: "jsval option \<Rightarrow> jsval option \<Rightarrow> bool" where
  "forward a b =
     (a = b
      \<or> (a = None \<and> b = Some (JStr ''QUEUED''))
      \<or> b = None
      \<or> (a = Some (JStr ''QUEUED'') \<and> b = Some (JStr ''PROCESSING''))
      \<or> (a = Some (JStr ''PROCESSING'') \<and> b \<in> {Some (JStr ''SUCCESS''), Some (JStr ''FAILED'')}))"

definition forward_only :: "server list \<Rightarrow> string \<Rightarrow> bool" where
  "forward_only states tid = successively forward (map (\<lambda>srv. status_of srv tid) states)"

section \<open>Example inputs\<close>

text \<open>
  A request body with two sources, a task id to be trimmed, a weight given as a string, a
  lower-case feature type and a \<^verbatim>\<open>model\<close> property; and the contract it validates to.
\<close>

definition example_body :: jsval where
  "example_body =
     JObj [(''taskId'', JStr '' t1 ''),
           (''prompt'', JStr ''Use [Reference] with [Source 0] and [Source 5]''),
           (''model'', JStr ''custom-model''),
           (''reference'',
              JObj [(''imageRef'', JStr ''data:image/png;base64,AAAA''),
                    (''weight'', JNum (Fin (1 / 2)))]),
           (''sources'',
              JArr [JObj [(''imageRef'', JStr ''data:image/png;base64,BBBB''),
                          (''featureType'', JStr ''style''),
                          (''weight'', JStr ''0.75'')],
                    JObj [(''imageRef'', JStr ''data:image/jpeg;base64,CCCC''),
                          (''featureType'', JStr ''FACE''),
                          (''weight'', JNum (Fin 1))]])]"

definition example_contract :: contract where
  "example_contract =
     \<lparr>taskId = ''t1'',
      prompt = ''Use [Reference] with [Source 0] and [Source 5]'',
      negativePrompt = [],
      reference = \<lparr>imageRef = ''data:image/png;base64,AAAA'', weight = Fin (1 / 2)\<rparr>,
      sources = [\<lparr>imageRef = ''data:image/png;base64,BBBB'', weight = Fin (3 / 4),
                   featureType = ''STYLE''\<rparr>,
                 \<lparr>imageRef = ''data:image/jpeg;base64,CCCC'', weight = Fin 1,
                   featureType = ''FACE''\<rparr>],
      model = JUndefined\<rparr>"

definition example_env :: engine_env where
  "example_env =
     \<lparr>GEMINI_API_KEY = Some ''key'', GEMINI_MODEL = None,
      fetch_image = (\<lambda>url. Inl (Error ''fetch failed''))\<rparr>"

section \<open>Invariants of the task store\<close>

text \<open>
  A stored task is an object whose \<^verbatim>\<open>taskId\<close> is a non-blank string and whose \<^verbatim>\<open>status\<close> is one
  of the four task statuses; \<^verbatim>\<open>toTaskView\<close> does not throw on such a task.
\<close>

definition valid_task :: "jsval \<Rightarrow> bool" where
  "valid_task task =
     (isRecord task
      \<and> (case get task ''taskId'' of JStr t \<Rightarrow> trim t \<noteq> [] | _ \<Rightarrow> False)
      \<and> (case get task ''status'' of JStr s \<Rightarrow> s \<in> set TASK_STATUSES | _ \<Rightarrow> False))"

definition valid_store :: "server \<Rightarrow> bool" where
  "valid_store srv = (\<forall>tid task. tasks srv tid = Some task \<longrightarrow> valid_task task)"

text \<open>
  The task id \<open>tid\<close> has only its own run: at most one suspended run carries it, a tracked
  task of that id with a suspended run is \<^verbatim>\<open>PROCESSING\<close>, and one without is \<^verbatim>\<open>SUCCESS\<close> or
  \<^verbatim>\<open>FAILED\<close>.
\<close>

definition own_run :: "string \<Rightarrow> server \<Rightarrow> bool" where
  "own_run tid srv =
     (valid_store srv \<and> count_list (running srv) tid \<le> 1
      \<and> (\<forall>s. status_of srv tid = Some s \<longrightarrow>
             (if tid \<in> set (running srv) then s = JStr ''PROCESSING''
              else s = JStr ''SUCCESS'' \<or> s = JStr ''FAILED'')))"

text \<open>
  The event does not put a task of id \<open>tid\<close> beside a stale run: it is not a submission of
  \<open>tid\<close> that is accepted (no task of that id is tracked) while a run started for an earlier
  task of that id is still suspended. A submission that is refused, and a submission of
  another task id, are fresh whatever runs are suspended.
\<close>

definition fresh_submission :: "string \<Rightarrow> event \<Rightarrow> server \<Rightarrow> bool" where
  "fresh_submission tid e srv =
     (case e of
        Post now body \<Rightarrow>
          (case validateGenerationContract body of
             Inr c \<Rightarrow> \<not> (taskId c = tid \<and> tasks srv tid = None \<and> tid \<in> set (running srv))
           | Inl err \<Rightarrow> True)
      | _ \<Rightarrow> True)"

text \<open>A sequence of events all of which are fresh for \<open>tid\<close> in the state they meet.\<close>

fun no_stale_run ::
  "(string \<Rightarrow> string) \<Rightarrow> engine_env \<Rightarrow> string \<Rightarrow> event list \<Rightarrow> server \<Rightarrow> bool" where
  "no_stale_run enc env tid [] srv = True"
| "no_stale_run enc env tid (e # es) srv =
     (fresh_submission tid e srv
      \<and> no_stale_run enc env tid es (last (srv # fire enc env e srv)))"

definition example_result :: generation_result where
  "example_result = \<lparr>outputExtension = ''png'', warnings = [], workflowGraph = JNull\<rparr>"

text \<open>
  A task is submitted, its provider call hangs until the task is evicted, the same task id
  is submitted again, the first run resolves and then the second one rejects.
\<close>

definition stale_run_events :: "event list" where
  "stale_run_events =
     [Post ''00:00'' example_body,
      Evict ''t1'',
      Post ''01:01'' example_body,
      Resolved ''01:02'' ''t1'' example_result None,
      Rejected ''01:03'' ''t1'' (Error ''Gemini returned no image part.'')]"

text \<open>A task object with blank and ill-typed properties, and its projection.\<close>

definition example_task :: jsval where
  "example_task =
     JObj [(''taskId'', JStr ''t1''),
           (''status'', JStr '' success ''),
           (''outputUrl'', JStr '' /outputs/t1.png ''),
           (''errorCode'', JNum (Fin 0)),
           (''message'', JStr ''  ''),
           (''warnings'', JArr [JStr ''late'', JStr '' '', JNull]),
           (''updatedAt'', JStr ''00:00'')]"

definition example_view :: jsval where
  "example_view =
     JObj [(''taskId'', JStr ''t1''),
           (''status'', JStr ''SUCCESS''),
           (''outputUrl'', JStr ''/outputs/t1.png''),
           (''errorCode'', JNull),
           (''message'', JNull),
           (''warnings'', JArr [JStr ''late'']),
           (''updatedAt'', JStr ''00:00''),
           (''workflowGraph'', JNull),
           (''progress'', JNull)]"

section \<open>Reading the engine's results\<close>

text \<open>The \<^verbatim>\<open>parts\<close> of the first turn of a request body, and the nodes of a workflow graph.\<close>

definition request_parts_of :: "jsval \<Rightarrow> jsval list" where
  "request_parts_of body =
     (case get body ''contents'' of
        JArr (turn # turns) \<Rightarrow> (case get turn ''parts'' of JArr ps \<Rightarrow> ps | _ \<Rightarrow> [])
      | _ \<Rightarrow> [])"

definition graph_nodes :: "jsval \<Rightarrow> jsval list" where
  "graph_nodes graph = (case get graph ''nodes'' of JArr ns \<Rightarrow> ns | _ \<Rightarrow> [])"

definition source_marker :: "nat \<Rightarrow> jsval" where
  "source_marker index = JObj [(''text'', JStr (''Source '' @ string_of_nat index @ '' image''))]"

definition inline_part :: "jsval \<Rightarrow> jsval" where
  "inline_part inlineData = JObj [(''inline_data'', inlineData)]"

text \<open>The contract that \<^verbatim>\<open>runDualTrackGeneration\<close> hands to \<^verbatim>\<open>buildWorkflowGraph\<close>.\<close>

definition with_target_model :: "engine_env \<Rightarrow> contract \<Rightarrow> contract" where
  "with_target_model env c = c\<lparr>model := js_or (model c) (JStr (DEFAULT_MODEL env))\<rparr>"

definition example_request :: jsval where
  "example_request = projr (runDualTrackGeneration_request example_env example_contract)"

text \<open>
  A request body whose reference weight is an object with an own property \<^verbatim>\<open>toString\<close>, as
  \<^verbatim>\<open>JSON.parse\<close> returns it for \<^verbatim>\<open>"weight": {"toString": null}\<close>.
\<close>

definition unconvertible_weight_body :: jsval where
  "unconvertible_weight_body =
     JObj [(''taskId'', JStr ''t1''),
           (''prompt'', JStr ''p''),
           (''reference'',
              JObj [(''imageRef'', JStr ''data:image/png;base64,AAAA''),
                    (''weight'', JObj [(''toString'', JNull)])]),
           (''sources'',
              JArr [JObj [(''imageRef'', JStr ''data:image/png;base64,BBBB''),
                          (''featureType'', JStr ''FACE''),
                          (''weight'', JNum (Fin 1))]])]"

lemma is_digit_digit_char: "d < 10 \<Longrightarrow> is_digit (digit_char d)"
proof -
  assume "d < 10"
  then have "d \<in> {0,1,2,3,4,5,6,7,8,9}" by auto
  then show ?thesis by (auto simp: is_digit_def digit_char_def)
qed

lemma digit_val_digit_char: "d < 10 \<Longrightarrow> digit_val (digit_char d) = d"
proof -
  assume "d < 10"
  then have "d \<in> {0,1,2,3,4,5,6,7,8,9}" by auto
  then show ?thesis by (auto simp: digit_val_def digit_char_def)
qed

lemma string_of_nat_digits: "list_all is_digit (string_of_nat n)"
proof (induction n rule: string_of_nat.induct)
  case (1 n)
  show ?case
  proof (cases "n < 10")
    case True
    then show ?thesis by (subst string_of_nat.simps) (simp add: is_digit_digit_char)
  next
    case False
    with 1 show ?thesis by (subst string_of_nat.simps) (simp add: is_digit_digit_char)
  qed
qed

lemma string_of_nat_nonempty: "string_of_nat n \<noteq> []"
  by (subst string_of_nat.simps) simp

lemma digits_val_snoc: "digits_val b (ds @ [c]) = b * digits_val b ds + digit_val c"
  by (simp add: digits_val_def)

lemma digits_val_string_of_nat: "digits_val 10 (string_of_nat n) = n"
proof (induction n rule: string_of_nat.induct)
  case (1 n)
  show ?case
  proof (cases "n < 10")
    case True
    then show ?thesis by (subst string_of_nat.simps) (simp add: digits_val_def digit_val_digit_char)
  next
    case False
    with 1 show ?thesis by (subst string_of_nat.simps) (simp add: digits_val_snoc digit_val_digit_char)
  qed
qed

lemma length_string_of_nat: "n < 10 ^ k \<Longrightarrow> 0 < k \<Longrightarrow> length (string_of_nat n) \<le> k"
proof (induction n arbitrary: k rule: string_of_nat.induct)
  case (1 n)
  show ?case
  proof (cases "n < 10")
    case True
    with 1(3) show ?thesis by (subst string_of_nat.simps) simp
  next
    case False
    then obtain j where k: "k = Suc j" using 1(3) by (cases k) auto
    with False 1(2) have "0 < j" by (cases j) auto
    moreover from 1(2) k have "n div 10 < 10 ^ j" by (simp add: less_mult_imp_div_less mult.commute)
    ultimately have "length (string_of_nat (n div 10)) \<le> j" using 1(1)[OF False] by simp
    with False k show ?thesis by (subst string_of_nat.simps) simp
  qed
qed

lemma digits_val_zeros: "digits_val 10 (replicate j CHR ''0'' @ ds) = digits_val 10 ds"
proof -
  have "foldl (\<lambda>a c. 10 * a + digit_val c) 0 (replicate j CHR ''0'') = 0"
    by (induction j) (simp_all add: digit_val_def)
  then show ?thesis by (simp add: digits_val_def)
qed

lemma is_digit_not_ws: "is_digit c \<Longrightarrow> \<not> is_ws c"
  by (auto simp: is_digit_def is_ws_def)

lemma trim_no_outer_ws: "s \<noteq> [] \<Longrightarrow> \<not> is_ws (hd s) \<Longrightarrow> \<not> is_ws (last s) \<Longrightarrow> trim s = s"
proof -
  assume ne: "s \<noteq> []" and h: "\<not> is_ws (hd s)" and l: "\<not> is_ws (last s)"
  from ne h have 1: "dropWhile is_ws s = s" by (cases s) auto
  from ne l have 2: "dropWhile is_ws (rev s) = rev s" by (cases "rev s") (auto simp: last_rev hd_rev)
  show ?thesis by (simp add: trim_def 1 2)
qed

lemma takeWhile_all: "list_all P xs \<Longrightarrow> takeWhile P xs = xs"
  by (induction xs) auto

lemma dropWhile_all: "list_all P xs \<Longrightarrow> dropWhile P xs = []"
  by (induction xs) auto

lemma StringToNumber_fixed:
  assumes "is_digit d" and "list_all is_digit ds"
  shows "StringToNumber (d # CHR ''.'' # ds)
         = double_of_rat (of_nat (digits_val 10 (d # ds)) * pow10 (- int (length ds)))"
proof -
  let ?s = "d # CHR ''.'' # ds"
  have last_ok: "\<not> is_ws (last ?s)"
  proof (cases ds rule: rev_cases)
    case Nil
    then show ?thesis by (simp add: is_ws_def)
  next
    case (snoc ys y)
    with assms(2) have "is_digit y" by simp
    with snoc show ?thesis by (simp add: is_digit_not_ws)
  qed
  have t: "trim ?s = ?s"
    by (rule trim_no_outer_ws) (use assms(1) last_ok in \<open>simp_all add: is_digit_not_ws\<close>)
  have nd: "nondecimal ?s = None" by (simp add: nondecimal_def)
  have d_sign: "d \<noteq> CHR ''+''" "d \<noteq> CHR ''-''" "d \<noteq> CHR ''I''"
    using assms(1) by (auto simp: is_digit_def)
  have ss: "split_sign ?s = (False, ?s)" using d_sign by (simp add: split_sign_def)
  have inf: "?s \<noteq> ''Infinity''" using d_sign by simp
  have dot: "\<not> is_digit CHR ''.''" by (simp add: is_digit_def)
  have pud: "parse_unsigned_decimal ?s
             = Some (of_nat (digits_val 10 (d # ds)) * pow10 (- int (length ds)))"
    using assms dot
    by (simp add: parse_unsigned_decimal_def parse_exponent_def takeWhile_all dropWhile_all)
  show ?thesis
    unfolding StringToNumber_def t Let_def nd ss using inf pud by simp
qed
lemma toFixed4_shape:
  assumes "0 \<le> x" and "x \<le> 1"
  obtains d ds where "toFixed 4 x = d # CHR ''.'' # ds" and "is_digit d"
    and "list_all is_digit ds" and "length ds = 4"
    and "digits_val 10 (d # ds) = nat \<lfloor>x * 10000 + 1 / 2\<rfloor>"
proof -
  define n where "n = nat \<lfloor>x * 10000 + 1 / 2\<rfloor>"
  define m where "m = string_of_nat n"
  define z where "z = replicate (5 - length m) CHR ''0'' @ m"
  define k where "k = \<lfloor>x * 10000 + 1 / 2\<rfloor>"
  have "k < 10001" unfolding k_def using assms(2) by (subst floor_less_iff) simp
  then have "nat k < 10 ^ 5" by simp
  then have "n < 10 ^ 5" by (simp only: n_def k_def)
  then have lm: "length m \<le> 5" unfolding m_def by (rule length_string_of_nat) simp
  then have lz: "length z = 5" by (simp add: z_def)
  have "is_digit CHR ''0''" by (simp add: is_digit_def)
  then have "list_all is_digit (replicate (5 - length m) CHR ''0'')"
    by (simp add: list_all_iff)
  then have dz: "list_all is_digit z"
    by (simp add: z_def m_def string_of_nat_digits)
  have vz: "digits_val 10 z = n"
    by (simp add: z_def m_def digits_val_zeros digits_val_string_of_nat)
  from lz obtain d ds where z: "z = d # ds" and lds: "length ds = 4"
    by (cases z) auto
  have abs: "\<bar>x\<bar> = x" using assms(1) by simp
  have z': "z = replicate (4 + 1 - length m) CHR ''0'' @ m" by (simp add: z_def)
  have "toFixed 4 x = take (length z - 4) z @ ''.'' @ drop (length z - 4) z"
    unfolding toFixed_def Let_def abs z' m_def n_def using assms(1)
    by (simp del: take_append drop_append length_append length_replicate)
  moreover have "length z - 4 = Suc 0" using lz by simp
  ultimately have "toFixed 4 x = d # CHR ''.'' # ds" by (simp add: z)
  moreover have "is_digit d" "list_all is_digit ds" using dz z by simp_all
  moreover have "digits_val 10 (d # ds) = nat \<lfloor>x * 10000 + 1 / 2\<rfloor>"
    using vz z n_def by simp
  ultimately show ?thesis using that lds by blast
qed

lemma StringToNumber_toFixed4:
  assumes "0 \<le> x" and "x \<le> 1"
  shows "StringToNumber (toFixed 4 x) = double_of_rat (of_int \<lfloor>x * 10000 + 1 / 2\<rfloor> / 10000)"
proof -
  from assms obtain d ds where s: "toFixed 4 x = d # CHR ''.'' # ds" and d: "is_digit d"
    and ds: "list_all is_digit ds" and l: "length ds = 4"
    and v: "digits_val 10 (d # ds) = nat \<lfloor>x * 10000 + 1 / 2\<rfloor>"
    by (rule toFixed4_shape)
  have nonneg: "0 \<le> \<lfloor>x * 10000 + 1 / 2\<rfloor>" using assms(1) by simp
  have "StringToNumber (toFixed 4 x)
        = double_of_rat (of_nat (nat \<lfloor>x * 10000 + 1 / 2\<rfloor>) * pow10 (- 4))"
    unfolding s using StringToNumber_fixed[OF d ds] by (simp add: v l)
  also have "of_nat (nat \<lfloor>x * 10000 + 1 / 2\<rfloor>) = (of_int \<lfloor>x * 10000 + 1 / 2\<rfloor> :: rat)"
    using nonneg by simp
  finally show ?thesis by (simp add: pow10_def)
qed
lemma round_half_even_near: "\<bar>of_int (round_half_even q) - q\<bar> \<le> 1 / 2"
proof -
  define f where "f = \<lfloor>q\<rfloor>"
  define d where "d = q - of_int f"
  have d: "0 \<le> d" "d < 1" unfolding d_def f_def by linarith+
  have q: "q = of_int f + d" by (simp add: d_def)
  show ?thesis
    unfolding round_half_even_def Let_def f_def[symmetric] d_def[symmetric]
    using d by (auto simp: q)
qed

lemma round_half_even_le: "q \<le> of_int N \<Longrightarrow> round_half_even q \<le> N"
proof -
  assume le: "q \<le> of_int N"
  define f where "f = \<lfloor>q\<rfloor>"
  define d where "d = q - of_int f"
  have fN: "f \<le> N" unfolding f_def using le by (simp add: floor_le_iff)
  show ?thesis
  proof (cases "f = N")
    case True
    then have "d \<le> 0" using le by (simp add: d_def)
    then have "d < 1 / 2" by simp
    then show ?thesis
      unfolding round_half_even_def Let_def f_def[symmetric] d_def[symmetric] using True by simp
  next
    case False
    with fN have "f + 1 \<le> N" by simp
    then show ?thesis
      unfolding round_half_even_def Let_def f_def[symmetric] d_def[symmetric] using fN by simp
  qed
qed

lemma round_half_even_nonneg: "0 \<le> q \<Longrightarrow> 0 \<le> round_half_even q"
  by (simp add: round_half_even_def Let_def)

lemma bitlen_nonneg': "0 \<le> bitlen k"
  by (simp add: bitlen_def)

lemma binade_le_0: "0 < a \<Longrightarrow> a \<le> 1 \<Longrightarrow> binade a \<le> 0"
proof -
  assume "0 < a" and "a \<le> 1"
  show ?thesis
  proof (cases "a = 1")
    case True
    then show ?thesis by (simp add: binade_def bitlen_def floorlog_def)
  next
    case False
    with \<open>a \<le> 1\<close> have "\<not> 1 \<le> a" by simp
    then show ?thesis using bitlen_nonneg'[of "\<lceil>1 / a\<rceil> - 1"] by (simp add: binade_def)
  qed
qed

lemma double_of_rat_unit:
  assumes "0 \<le> a" and "a \<le> 1"
  obtains y where "double_of_rat a = Fin y" and "0 \<le> y" and "y \<le> 1"
    and "\<bar>y - a\<bar> \<le> 1 / 2 ^ 53"
proof (cases "a = 0")
  case True
  then have "double_of_rat a = Fin 0" by (simp add: double_of_rat_def)
  with True that show ?thesis by simp
next
  case False
  with assms have pos: "0 < a" by simp
  define e where "e = max (binade a) (- 1022)"
  define ulp where "ulp = pow2 (e - 52)"
  define y where "y = of_int (round_half_even (a / ulp)) * ulp"
  have e0: "e \<le> 0" using binade_le_0[OF pos assms(2)] by (simp add: e_def)
  then have ulp: "ulp = 1 / 2 ^ nat (52 - e)" by (simp add: ulp_def pow2_def)
  have ulp_pos: "0 < ulp" by (simp add: ulp)
  have "(2::rat) ^ 52 \<le> 2 ^ nat (52 - e)" using e0 by (intro power_increasing) simp_all
  then have ulp_le: "ulp \<le> 1 / 2 ^ 52" unfolding ulp by (simp add: field_simps)
  have abs: "\<bar>a\<bar> = a" using pos by simp
  have "double_of_rat a = (if e < 1023 then Fin y else if max_double < y then PosInf else Fin y)"
    unfolding double_of_rat_def abs Let_def e_def ulp_def y_def using pos by simp
  then have res: "double_of_rat a = Fin y" using e0 by simp
  have near: "\<bar>of_int (round_half_even (a / ulp)) - a / ulp\<bar> \<le> 1 / 2"
    by (rule round_half_even_near)
  have "y - a = (of_int (round_half_even (a / ulp)) - a / ulp) * ulp"
    using ulp_pos by (simp add: y_def left_diff_distrib)
  then have "\<bar>y - a\<bar> = \<bar>of_int (round_half_even (a / ulp)) - a / ulp\<bar> * \<bar>ulp\<bar>"
    by (simp only: abs_mult)
  also have "\<bar>ulp\<bar> = ulp" using ulp_pos by simp
  finally have "\<bar>y - a\<bar> = \<bar>of_int (round_half_even (a / ulp)) - a / ulp\<bar> * ulp" .
  also have "\<dots> \<le> 1 / 2 * ulp" using near ulp_pos by (intro mult_right_mono) simp_all
  also have "\<dots> \<le> 1 / 2 * (1 / 2 ^ 52)" using ulp_le by simp
  finally have d: "\<bar>y - a\<bar> \<le> 1 / 2 ^ 53" by simp
  have "a / ulp \<le> of_int (2 ^ nat (52 - e))" using assms(2) by (simp add: ulp)
  then have "round_half_even (a / ulp) \<le> 2 ^ nat (52 - e)" by (rule round_half_even_le)
  then have "(of_int (round_half_even (a / ulp)) :: rat) \<le> of_int (2 ^ nat (52 - e))"
    by (simp only: of_int_le_iff)
  then have "y \<le> of_int (2 ^ nat (52 - e)) * ulp" unfolding y_def
    using ulp_pos by (intro mult_right_mono) simp_all
  then have y1: "y \<le> 1" by (simp add: ulp)
  have "0 \<le> a / ulp" using pos ulp_pos by simp
  then have "0 \<le> round_half_even (a / ulp)" by (rule round_half_even_nonneg)
  then have y0: "0 \<le> y" using ulp_pos by (simp add: y_def)
  show ?thesis using that res y0 y1 d by blast
qed

lemma round_to_4_range:
  assumes "0 \<le> x" and "x \<le> 1"
  shows "0 \<le> round_to 4 x" and "round_to 4 x \<le> 1"
proof -
  have "0 \<le> \<lfloor>x * 10000 + 1 / 2\<rfloor>" using assms(1) by simp
  then show "0 \<le> round_to 4 x" by (simp add: round_to_def)
  define k where "k = \<lfloor>x * 10000 + 1 / 2\<rfloor>"
  have "k < 10001" unfolding k_def using assms(2) by (subst floor_less_iff) simp
  then have "k \<le> 10000" by simp
  then have "(of_int k :: rat) \<le> 10000" by simp
  then show "round_to 4 x \<le> 1" by (simp add: round_to_def k_def)
qed

lemma round_to_4_stable:
  assumes "\<bar>y - round_to 4 x\<bar> \<le> 1 / 2 ^ 53"
  shows "round_to 4 y = round_to 4 x"
proof -
  define k where "k = \<lfloor>x * 10000 + 1 / 2\<rfloor>"
  have a: "round_to 4 x = of_int k / 10000" by (simp add: round_to_def k_def)
  from assms have "\<bar>y * 10000 - of_int k\<bar> \<le> 10000 / 2 ^ 53"
    unfolding a by (simp add: abs_le_iff field_simps)
  then have "\<bar>y * 10000 - of_int k\<bar> < 1 / 2" by simp
  then have "y * 10000 - of_int k < 1 / 2" "- (y * 10000 - of_int k) < 1 / 2"
    by (auto simp only: abs_less_iff)
  then have "of_int k \<le> y * 10000 + 1 / 2" "y * 10000 + 1 / 2 < of_int k + 1"
    by linarith+
  then have "\<lfloor>y * 10000 + 1 / 2\<rfloor> = k" by (simp add: floor_eq_iff)
  then show ?thesis by (simp add: round_to_def k_def)
qed

lemma ensureWeight_parsed:
  assumes "(case value of JNum n \<Rightarrow> Inr n | _ \<Rightarrow> js_Number value) = Inr parsed"
  shows "map_sum error_code id (ensureWeight value field) = weight_rule parsed"
proof (cases parsed)
  case (Fin x)
  show ?thesis
  proof (cases "0 \<le> x \<and> x \<le> 1")
    case True
    then have "StringToNumber (toFixed 4 x) = double_of_rat (round_to 4 x)"
      by (simp add: StringToNumber_toFixed4 round_to_def)
    with True Fin assms show ?thesis
      by (simp add: ensureWeight_def weight_rule_def not_less)
  next
    case False
    then have "x < 0 \<or> 1 < x" by auto
    with False Fin assms show ?thesis
      by (simp add: ensureWeight_def weight_rule_def)
  qed
qed (use assms in \<open>simp_all add: ensureWeight_def weight_rule_def\<close>)

text \<open>
  C2. A weight given as a number \<open>n\<close>, or as a string \<open>s\<close> with numeric value
  \<open>StringToNumber s\<close>, is accepted exactly when that value is finite and in \<open>[0, 1]\<close>, and
  is then stored rounded to four decimal places; a finite value outside \<open>[0, 1]\<close> fails
  with \<^verbatim>\<open>WEIGHT_OUT_OF_RANGE\<close>; \<open>NaN\<close> (a string that is no numeric literal) and the
  infinities fail with \<^verbatim>\<open>INVALID_WEIGHT\<close>, before any range check.
\<close>

theorem ensureWeight_number_or_numeric_string:
  "map_sum error_code id (ensureWeight (JNum n) field) = weight_rule n \<and>
   map_sum error_code id (ensureWeight (JStr s) field) = weight_rule (StringToNumber s)"
  by (simp add: ensureWeight_parsed)

lemma double_of_rat_1: "double_of_rat 1 = Fin 1"
  by code_simp

text \<open>
  C10. A weight that is not a number goes through \<^verbatim>\<open>Number()\<close>: \<^verbatim>\<open>null\<close> and the empty
  string are accepted and stored as \<open>0\<close>, \<^verbatim>\<open>true\<close> is accepted and stored as \<open>1\<close>.
\<close>

theorem ensureWeight_coerces_null_empty_true:
  "ensureWeight JNull field = Inr (Fin 0) \<and>
   ensureWeight (JStr []) field = Inr (Fin 0) \<and>
   ensureWeight (JBool True) field = Inr (Fin 1)"
proof -
  have f0: "\<lfloor>(0::rat) * 10000 + 1 / 2\<rfloor> = 0" by (rule floor_unique) simp_all
  have f1: "\<lfloor>(1::rat) * 10000 + 1 / 2\<rfloor> = 10000" by (rule floor_unique) simp_all
  have "StringToNumber (toFixed 4 0) = double_of_rat (of_int 0 / 10000)"
    using StringToNumber_toFixed4[of 0] by (simp only: f0 order_refl zero_le_one)
  then have z: "StringToNumber (toFixed 4 0) = Fin 0" by (simp add: double_of_rat_def)
  have "StringToNumber (toFixed 4 1) = double_of_rat (of_int 10000 / 10000)"
    using StringToNumber_toFixed4[of 1] by (simp only: f1 order_refl zero_le_one)
  then have o: "StringToNumber (toFixed 4 1) = Fin 1" by (simp add: double_of_rat_1)
  have e: "StringToNumber [] = Fin 0" by (simp add: StringToNumber_def trim_def)
  show ?thesis by (simp add: ensureWeight_def z o e)
qed

lemma double_of_rat_half: "double_of_rat (1 / 2) = Fin (1 / 2)"
  by code_simp

lemma double_of_rat_3q: "double_of_rat (3 / 4) = Fin (3 / 4)"
  by code_simp

lemma round_to_4_exact: "x * 10000 = of_int k \<Longrightarrow> round_to 4 x = x"
proof -
  assume k: "x * 10000 = of_int k"
  have "\<lfloor>x * 10000 + 1 / 2\<rfloor> = k" unfolding k by (rule floor_unique) simp_all
  then have "round_to 4 x = of_int k / 10000" by (simp add: round_to_def)
  also have "\<dots> = x" using k by simp
  finally show ?thesis .
qed

lemma ensureWeight_accept:
  assumes "(case value of JNum n \<Rightarrow> Inr n | _ \<Rightarrow> js_Number value) = Inr (Fin x)"
    and "0 \<le> x" and "x \<le> 1"
  shows "ensureWeight value field = Inr (double_of_rat (round_to 4 x))"
proof -
  have "map_sum error_code id (ensureWeight value field) = Inr (double_of_rat (round_to 4 x))"
    using ensureWeight_parsed[OF assms(1)] assms(2,3) by (simp add: weight_rule_def)
  then show ?thesis by (cases "ensureWeight value field") simp_all
qed

lemma trim_t1: "trim '' t1 '' = ''t1''"
  by (simp add: trim_def is_ws_def)

lemma ensureWeight_half: "ensureWeight (JNum (Fin (1 / 2))) field = Inr (Fin (1 / 2))"
proof -
  have rt: "round_to 4 (1 / 2) = 1 / 2" by (rule round_to_4_exact[where k = 5000]) simp
  have "ensureWeight (JNum (Fin (1 / 2))) field = Inr (double_of_rat (round_to 4 (1 / 2)))"
    by (rule ensureWeight_accept) simp_all
  then show ?thesis by (simp only: rt double_of_rat_half)
qed

lemma ensureWeight_one: "ensureWeight (JNum (Fin 1)) field = Inr (Fin 1)"
proof -
  have rt: "round_to 4 1 = 1" by (rule round_to_4_exact[where k = 10000]) simp
  have "ensureWeight (JNum (Fin 1)) field = Inr (double_of_rat (round_to 4 1))"
    by (rule ensureWeight_accept) simp_all
  then show ?thesis by (simp only: rt double_of_rat_1)
qed

lemma StringToNumber_075: "StringToNumber ''0.75'' = Fin (3 / 4)"
proof -
  have "StringToNumber (CHR ''0'' # CHR ''.'' # ''75'')
        = double_of_rat (of_nat (digits_val 10 (CHR ''0'' # ''75'')) * pow10 (- int (length ''75'')))"
    by (rule StringToNumber_fixed) (simp_all add: is_digit_def)
  also have "of_nat (digits_val 10 (CHR ''0'' # ''75'')) * pow10 (- int (length ''75'')) = (3 / 4 :: rat)"
    by (simp add: digits_val_def digit_val_def pow10_def)
  finally show ?thesis by (simp add: double_of_rat_3q)
qed

lemma ensureWeight_075: "ensureWeight (JStr ''0.75'') field = Inr (Fin (3 / 4))"
proof -
  have rt: "round_to 4 (3 / 4) = 3 / 4" by (rule round_to_4_exact[where k = 7500]) simp
  have "ensureWeight (JStr ''0.75'') field = Inr (double_of_rat (round_to 4 (3 / 4)))"
    by (rule ensureWeight_accept) (simp_all add: StringToNumber_075)
  then show ?thesis by (simp only: rt double_of_rat_3q)
qed

lemma toUpperCase_style: "toUpperCase ''style'' = ''STYLE''"
  by (simp add: toUpperCase_def upper_char_def)

lemma toUpperCase_FACE: "toUpperCase ''FACE'' = ''FACE''"
  by (simp add: toUpperCase_def upper_char_def)

lemma validate_example: "validateGenerationContract example_body = Inr example_contract"
proof -
  have t: "trim ''Use [Reference] with [Source 0] and [Source 5]''
           = ''Use [Reference] with [Source 0] and [Source 5]''"
    "trim ''data:image/png;base64,AAAA'' = ''data:image/png;base64,AAAA''"
    "trim ''data:image/png;base64,BBBB'' = ''data:image/png;base64,BBBB''"
    "trim ''data:image/jpeg;base64,CCCC'' = ''data:image/jpeg;base64,CCCC''"
    "trim ''style'' = ''style''" "trim ''FACE'' = ''FACE''"
    by (simp_all add: trim_def is_ws_def)
  have r: "validateReference (get example_body ''reference'')
           = Inr \<lparr>imageRef = ''data:image/png;base64,AAAA'', weight = Fin (1 / 2)\<rparr>"
    by (simp add: example_body_def validateReference_def ensureString_def t ensureWeight_half)
  have s0: "validateSource (JObj [(''imageRef'', JStr ''data:image/png;base64,BBBB''),
                          (''featureType'', JStr ''style''),
                          (''weight'', JStr ''0.75'')]) 0
            = Inr \<lparr>imageRef = ''data:image/png;base64,BBBB'', weight = Fin (3 / 4),
                   featureType = ''STYLE''\<rparr>"
    by (simp add: validateSource_def ensureString_def t toUpperCase_style FEATURE_TYPES_def
                  ensureWeight_075 Let_def)
  have s1: "validateSource (JObj [(''imageRef'', JStr ''data:image/jpeg;base64,CCCC''),
                          (''featureType'', JStr ''FACE''),
                          (''weight'', JNum (Fin 1))]) (Suc 0)
            = Inr \<lparr>imageRef = ''data:image/jpeg;base64,CCCC'', weight = Fin 1,
                   featureType = ''FACE''\<rparr>"
    by (simp add: validateSource_def ensureString_def t toUpperCase_FACE FEATURE_TYPES_def
                  ensureWeight_one Let_def)
  have g: "get example_body ''taskId'' = JStr '' t1 ''"
    "get example_body ''prompt'' = JStr ''Use [Reference] with [Source 0] and [Source 5]''"
    "get example_body ''negativePrompt'' = JUndefined"
    "get example_body ''sources'' =
       JArr [JObj [(''imageRef'', JStr ''data:image/png;base64,BBBB''),
                          (''featureType'', JStr ''style''),
                          (''weight'', JStr ''0.75'')],
                    JObj [(''imageRef'', JStr ''data:image/jpeg;base64,CCCC''),
                          (''featureType'', JStr ''FACE''),
                          (''weight'', JNum (Fin 1))]]"
    "isRecord example_body"
    by (simp_all add: example_body_def)
  show ?thesis
    unfolding validateGenerationContract_def g r
    by (simp add: g ensureString_def trim_t1 t s0 s1 example_contract_def)
qed

lemma map_of_put: "map_of (put k v kvs) = (map_of kvs)(k \<mapsto> v)"
  by (induction kvs) (auto simp: fun_eq_iff)

lemma get_put: "get (JObj (put k v kvs)) k' = (if k' = k then v else get (JObj kvs) k')"
  by (simp add: map_of_put)

lemma createStatusResponse_Inr:
  assumes "createStatusResponse now input = Inr out"
  obtains tid st where "get input ''status'' = JStr st"
    and "toUpperCase (trim st) \<in> set TASK_STATUSES"
    and "out = JObj
           [(''taskId'', JStr tid),
            (''status'', JStr (toUpperCase (trim st))),
            (''outputUrl'', trimmed_or_null (get input ''outputUrl'')),
            (''errorCode'', trimmed_or_null (get input ''errorCode'')),
            (''message'', trimmed_or_null (get input ''message'')),
            (''warnings'',
               (case get input ''warnings'' of
                  JArr items \<Rightarrow> JArr (filter nonblank_string items)
                | _ \<Rightarrow> JArr [])),
            (''updatedAt'',
               (case get input ''updatedAt'' of
                  JStr u \<Rightarrow> if length u > 0 then JStr u else JStr now
                | _ \<Rightarrow> JStr now))]"
proof -
  from assms have r: "isRecord input"
    by (auto simp: createStatusResponse_def split: if_splits)
  from assms r obtain tid where tid: "ensureString (get input ''taskId'') ''taskId'' False = Inr tid"
    by (auto simp: createStatusResponse_def split: sum.splits)
  from assms r tid obtain st' where st': "ensureString (get input ''status'') ''status'' False = Inr st'"
    by (auto simp: createStatusResponse_def split: sum.splits)
  then obtain st where st: "get input ''status'' = JStr st" "st' = trim st"
    by (cases "get input ''status''") (auto simp: ensureString_def Let_def split: if_splits)
  from assms r tid st' have "toUpperCase st' \<in> set TASK_STATUSES"
    by (auto simp: createStatusResponse_def Let_def split: if_splits)
  moreover from this assms r tid st' have "out = JObj
           [(''taskId'', JStr tid),
            (''status'', JStr (toUpperCase st')),
            (''outputUrl'', trimmed_or_null (get input ''outputUrl'')),
            (''errorCode'', trimmed_or_null (get input ''errorCode'')),
            (''message'', trimmed_or_null (get input ''message'')),
            (''warnings'',
               (case get input ''warnings'' of
                  JArr items \<Rightarrow> JArr (filter nonblank_string items)
                | _ \<Rightarrow> JArr [])),
            (''updatedAt'',
               (case get input ''updatedAt'' of
                  JStr u \<Rightarrow> if length u > 0 then JStr u else JStr now
                | _ \<Rightarrow> JStr now))]"
    by (simp add: createStatusResponse_def Let_def)
  ultimately show ?thesis using that st by simp
qed

lemma createStatusResponse_fields:
  assumes "createStatusResponse now input = Inr out"
  shows "get out ''outputUrl'' = trimmed_or_null (get input ''outputUrl'')"
    and "get out ''errorCode'' = trimmed_or_null (get input ''errorCode'')"
    and "get out ''message'' = trimmed_or_null (get input ''message'')"
    and "get out ''warnings'' =
           (case get input ''warnings'' of JArr items \<Rightarrow> JArr (filter nonblank_string items)
            | _ \<Rightarrow> JArr [])"
    and "\<exists>s. get input ''status'' = JStr s \<and> get out ''status'' = JStr (toUpperCase (trim s))
             \<and> toUpperCase (trim s) \<in> set TASK_STATUSES"
proof -
  from assms obtain tid st where st: "get input ''status'' = JStr st"
    and ok: "toUpperCase (trim st) \<in> set TASK_STATUSES"
    and out: "out = JObj
           [(''taskId'', JStr tid),
            (''status'', JStr (toUpperCase (trim st))),
            (''outputUrl'', trimmed_or_null (get input ''outputUrl'')),
            (''errorCode'', trimmed_or_null (get input ''errorCode'')),
            (''message'', trimmed_or_null (get input ''message'')),
            (''warnings'',
               (case get input ''warnings'' of
                  JArr items \<Rightarrow> JArr (filter nonblank_string items)
                | _ \<Rightarrow> JArr [])),
            (''updatedAt'',
               (case get input ''updatedAt'' of
                  JStr u \<Rightarrow> if length u > 0 then JStr u else JStr now
                | _ \<Rightarrow> JStr now))]"
    by (rule createStatusResponse_Inr)
  show "get out ''outputUrl'' = trimmed_or_null (get input ''outputUrl'')" by (simp add: out)
  show "get out ''errorCode'' = trimmed_or_null (get input ''errorCode'')" by (simp add: out)
  show "get out ''message'' = trimmed_or_null (get input ''message'')" by (simp add: out)
  show "get out ''warnings'' =
           (case get input ''warnings'' of JArr items \<Rightarrow> JArr (filter nonblank_string items)
            | _ \<Rightarrow> JArr [])" by (simp add: out)
  show "\<exists>s. get input ''status'' = JStr s \<and> get out ''status'' = JStr (toUpperCase (trim s))
             \<and> toUpperCase (trim s) \<in> set TASK_STATUSES"
    using st ok by (simp add: out)
qed

lemma toTaskView_get:
  assumes "toTaskView now task = Inr view"
  shows "\<exists>out. createStatusResponse now task = Inr out
           \<and> (\<forall>k. k \<noteq> ''workflowGraph'' \<longrightarrow> k \<noteq> ''progress'' \<longrightarrow> get view k = get out k)"
proof -
  from assms obtain out where out: "createStatusResponse now task = Inr out"
    and view: "view = JObj (assign (props out)
                       [(''workflowGraph'', or_null (get task ''workflowGraph'')),
                        (''progress'', or_null (get task ''progress''))])"
    by (auto simp: toTaskView_def split: sum.splits)
  from out obtain kvs where kvs: "out = JObj kvs"
    by (rule createStatusResponse_Inr)
  have "get view k = get out k" if "k \<noteq> ''workflowGraph''" "k \<noteq> ''progress''" for k
    using that unfolding view kvs by (simp add: assign_def map_of_put)
  with out show ?thesis by blast
qed

text \<open>
  C9. Every projection of a task that leaves the server is built by \<^verbatim>\<open>toTaskView\<close> from
  \<^verbatim>\<open>createStatusResponse\<close>. In it, \<^verbatim>\<open>outputUrl\<close>, \<^verbatim>\<open>errorCode\<close> and \<^verbatim>\<open>message\<close> are the trimmed
  string when the task has a string there that is not blank, and \<^verbatim>\<open>null\<close> when the
  property is absent, not a string, or blank; \<^verbatim>\<open>warnings\<close> keeps exactly the items that
  are non-blank strings (and is empty when the task has no array there); the status is the
  trimmed, upper-cased status of the task and one of the four task statuses. A status
  string outside them is rejected with \<^verbatim>\<open>INVALID_STATUS_VALUE\<close>.
\<close>

theorem task_projection_normalized:
  "(toTaskView now task = Inr view \<longrightarrow>
      (\<forall>k \<in> {''outputUrl'', ''errorCode'', ''message''}.
          get view k = (case get task k of
                          JStr s \<Rightarrow> if trim s = [] then JNull else JStr (trim s)
                        | _ \<Rightarrow> JNull))
      \<and> get view ''warnings'' =
          (case get task ''warnings'' of
             JArr items \<Rightarrow> JArr (filter (\<lambda>item. \<exists>s. item = JStr s \<and> trim s \<noteq> []) items)
           | _ \<Rightarrow> JArr [])
      \<and> (\<exists>s. get task ''status'' = JStr s \<and> get view ''status'' = JStr (toUpperCase (trim s))
              \<and> toUpperCase (trim s) \<in> set TASK_STATUSES))
   \<and> (isRecord input \<longrightarrow> ensureString (get input ''taskId'') ''taskId'' False = Inr tid \<longrightarrow>
       get input ''status'' = JStr st \<longrightarrow> trim st \<noteq> [] \<longrightarrow>
       toUpperCase (trim st) \<notin> set TASK_STATUSES \<longrightarrow>
       map_sum error_code id (createStatusResponse now input) = Inl ''INVALID_STATUS_VALUE'')"
proof (intro conjI impI ballI)
  assume v: "toTaskView now task = Inr view"
  from toTaskView_get[OF v] obtain out where out: "createStatusResponse now task = Inr out"
    and same: "\<And>k. k \<noteq> ''workflowGraph'' \<Longrightarrow> k \<noteq> ''progress'' \<Longrightarrow> get view k = get out k"
    by blast
  note f = createStatusResponse_fields[OF out]
  have tn: "trimmed_or_null v = (case v of JStr s \<Rightarrow> if trim s = [] then JNull else JStr (trim s)
                                 | _ \<Rightarrow> JNull)" for v
    by (cases v) (simp_all add: trimmed_or_null_def)
  have nb: "nonblank_string = (\<lambda>item. \<exists>s. item = JStr s \<and> trim s \<noteq> [])"
  proof
    fix item show "nonblank_string item = (\<exists>s. item = JStr s \<and> trim s \<noteq> [])"
      by (cases item) (simp_all add: nonblank_string_def)
  qed
  {
    fix k :: string assume "k \<in> {''outputUrl'', ''errorCode'', ''message''}"
    then consider "k = ''outputUrl''" | "k = ''errorCode''" | "k = ''message''" by blast
    then show "get view k = (case get task k of
                          JStr s \<Rightarrow> if trim s = [] then JNull else JStr (trim s)
                        | _ \<Rightarrow> JNull)"
    proof cases
      case 1
      then show ?thesis using f(1) same[of "''outputUrl''"] by (simp add: tn)
    next
      case 2
      then show ?thesis using f(2) same[of "''errorCode''"] by (simp add: tn)
    next
      case 3
      then show ?thesis using f(3) same[of "''message''"] by (simp add: tn)
    qed
  }
  show "get view ''warnings'' =
          (case get task ''warnings'' of
             JArr items \<Rightarrow> JArr (filter (\<lambda>item. \<exists>s. item = JStr s \<and> trim s \<noteq> []) items)
           | _ \<Rightarrow> JArr [])"
    using f(4) same[of "''warnings''"] unfolding nb by simp
  show "\<exists>s. get task ''status'' = JStr s \<and> get view ''status'' = JStr (toUpperCase (trim s))
              \<and> toUpperCase (trim s) \<in> set TASK_STATUSES"
    using f(5) same[of "''status''"] by simp
next
  assume "isRecord input" "ensureString (get input ''taskId'') ''taskId'' False = Inr tid"
    "get input ''status'' = JStr st" "trim st \<noteq> []"
    "toUpperCase (trim st) \<notin> set TASK_STATUSES"
  then show "map_sum error_code id (createStatusResponse now input) = Inl ''INVALID_STATUS_VALUE''"
    by (simp add: createStatusResponse_def ensureString_def Let_def)
qed
theorem task_projection_normalized_witness:
  "toTaskView ''00:01'' example_task = Inr example_view
   \<and> get example_view ''outputUrl'' = JStr ''/outputs/t1.png''
   \<and> get example_view ''errorCode'' = JNull
   \<and> get example_view ''message'' = JNull
   \<and> get example_view ''warnings'' = JArr [JStr ''late'']
   \<and> get example_view ''status'' = JStr ''SUCCESS''
   \<and> map_sum error_code id
        (createStatusResponse ''00:01'' (JObj [(''taskId'', JStr ''t1''), (''status'', JStr ''done'')]))
       = Inl ''INVALID_STATUS_VALUE''"
proof -
  have t: "trim ''t1'' = ''t1''" "trim '' success '' = ''success''"
    "trim '' /outputs/t1.png '' = ''/outputs/t1.png''" "trim ''  '' = []"
    "trim ''late'' = ''late''" "trim '' '' = []" "trim ''done'' = ''done''"
    by (simp_all add: trim_def is_ws_def)
  have u: "toUpperCase ''success'' = ''SUCCESS''" "toUpperCase ''done'' = ''DONE''"
    by (simp_all add: toUpperCase_def upper_char_def)
  have h1: "toTaskView ''00:01'' example_task = Inr example_view"
    by (simp add: toTaskView_def createStatusResponse_def example_task_def example_view_def
          ensureString_def t u TASK_STATUSES_def trimmed_or_null_def nonblank_string_def
          or_null_def assign_def)
  have h2: "isRecord (JObj [(''taskId'', JStr ''t1''), (''status'', JStr ''done'')])" by simp
  have h3: "ensureString (get (JObj [(''taskId'', JStr ''t1''), (''status'', JStr ''done'')]) ''taskId'')
              ''taskId'' False = Inr ''t1''"
    by (simp add: ensureString_def t)
  have h4: "get (JObj [(''taskId'', JStr ''t1''), (''status'', JStr ''done'')]) ''status'' = JStr ''done''"
    by simp
  have h5: "trim ''done'' \<noteq> []" by (simp add: t)
  have h6: "toUpperCase (trim ''done'') \<notin> set TASK_STATUSES" by (simp add: t u TASK_STATUSES_def)
  note n = task_projection_normalized[of "''00:01''" example_task example_view
      "JObj [(''taskId'', JStr ''t1''), (''status'', JStr ''done'')]" "''t1''" "''done''"]
  have a: "\<forall>k \<in> {''outputUrl'', ''errorCode'', ''message''}.
          get example_view k = (case get example_task k of
                          JStr s \<Rightarrow> if trim s = [] then JNull else JStr (trim s)
                        | _ \<Rightarrow> JNull)"
    and b: "get example_view ''warnings'' =
          (case get example_task ''warnings'' of
             JArr items \<Rightarrow> JArr (filter (\<lambda>item. \<exists>s. item = JStr s \<and> trim s \<noteq> []) items)
           | _ \<Rightarrow> JArr [])"
    and c: "\<exists>s. get example_task ''status'' = JStr s
              \<and> get example_view ''status'' = JStr (toUpperCase (trim s))
              \<and> toUpperCase (trim s) \<in> set TASK_STATUSES"
    using n h1 by blast+
  have d: "map_sum error_code id
        (createStatusResponse ''00:01'' (JObj [(''taskId'', JStr ''t1''), (''status'', JStr ''done'')]))
       = Inl ''INVALID_STATUS_VALUE''"
    using n h2 h3 h4 h5 h6 by blast
  have 1: "get example_view ''outputUrl'' = JStr ''/outputs/t1.png''"
    using a by (simp add: example_task_def t)
  have 2: "get example_view ''errorCode'' = JNull" using a by (simp add: example_task_def)
  have 3: "get example_view ''message'' = JNull" using a by (simp add: example_task_def t)
  have 4: "get example_view ''warnings'' = JArr [JStr ''late'']"
    using b by (simp add: example_task_def t)
  have 5: "get example_view ''status'' = JStr ''SUCCESS''"
    using c by (auto simp: example_task_def t u)
  show ?thesis using h1 1 2 3 4 5 d by blast
qed

lemma trim_prefix: "\<exists>w. u = rev (dropWhile P (rev u)) @ w"
proof -
  have "rev (dropWhile P (rev u)) @ rev (takeWhile P (rev u))
        = rev (takeWhile P (rev u) @ dropWhile P (rev u))" by (simp only: rev_append)
  also have "\<dots> = rev (rev u)" by (simp only: takeWhile_dropWhile_id)
  also have "\<dots> = u" by simp
  finally have "u = rev (dropWhile P (rev u)) @ rev (takeWhile P (rev u))" by (rule sym)
  then show ?thesis ..
qed

lemma trim_idem: "trim (trim s) = trim s"
proof (cases "trim s = []")
  case True
  show ?thesis unfolding True by (simp add: trim_def)
next
  case False
  define u where "u = dropWhile is_ws s"
  define v where "v = rev (dropWhile is_ws (rev u))"
  have tv: "trim s = v" by (simp add: trim_def u_def v_def)
  with False have ne: "v \<noteq> []" by simp
  then have dne: "dropWhile is_ws (rev u) \<noteq> []" by (simp add: v_def)
  have "\<not> is_ws (hd (dropWhile is_ws (rev u)))" using dne by (rule hd_dropWhile)
  then have l: "\<not> is_ws (last v)" using dne by (simp add: v_def last_rev)
  obtain w where w: "u = v @ w" using trim_prefix[of u is_ws] unfolding v_def by blast
  with ne have une: "u \<noteq> []" by simp
  then have "\<not> is_ws (hd u)" unfolding u_def by (rule hd_dropWhile)
  with w ne have h: "\<not> is_ws (hd v)" by simp
  show ?thesis unfolding tv using ne h l by (rule trim_no_outer_ws)
qed

lemma ensureString_Inr:
  "ensureString value field allowEmpty = Inr t
   \<longleftrightarrow> (\<exists>s. value = JStr s \<and> t = trim s \<and> (allowEmpty \<or> trim s \<noteq> []))"
  by (cases "value") (auto simp: ensureString_def Let_def)

lemma ensureString_trimmed:
  "ensureString value field allowEmpty = Inr t \<Longrightarrow> trim t = t"
  by (auto simp: ensureString_Inr trim_idem)

lemma validate_Inr:
  assumes "validateGenerationContract input = Inr c"
  shows "isRecord input"
    and "ensureString (get input ''taskId'') ''taskId'' False = Inr (taskId c)"
    and "ensureString (get input ''prompt'') ''prompt'' False = Inr (prompt c)"
    and "(if get input ''negativePrompt'' = JUndefined then Inr []
          else ensureString (get input ''negativePrompt'') ''negativePrompt'' True)
         = Inr (negativePrompt c)"
    and "validateReference (get input ''reference'') = Inr (reference c)"
    and "\<exists>vs. get input ''sources'' = JArr vs \<and> vs \<noteq> [] \<and> validateSources vs 0 = Inr (sources c)"
    and "model c = JUndefined"
proof -
  show r: "isRecord input" using assms
    by (auto simp: validateGenerationContract_def split: if_splits)
  obtain t where t: "ensureString (get input ''taskId'') ''taskId'' False = Inr t"
    using assms r by (cases "ensureString (get input ''taskId'') ''taskId'' False")
      (auto simp: validateGenerationContract_def)
  obtain p where p: "ensureString (get input ''prompt'') ''prompt'' False = Inr p"
    using assms r t by (cases "ensureString (get input ''prompt'') ''prompt'' False")
      (auto simp: validateGenerationContract_def)
  define ne where "ne = (if get input ''negativePrompt'' = JUndefined then Inr []
          else ensureString (get input ''negativePrompt'') ''negativePrompt'' True)"
  obtain n where n: "ne = Inr n"
    using assms r t p by (cases ne)
      (auto simp: validateGenerationContract_def ne_def)
  obtain rf where rf: "validateReference (get input ''reference'') = Inr rf"
    using assms r t p n by (cases "validateReference (get input ''reference'')")
      (auto simp: validateGenerationContract_def ne_def[symmetric])
  obtain vs where vs: "get input ''sources'' = JArr vs"
    using assms r t p n rf by (cases "get input ''sources''")
      (auto simp: validateGenerationContract_def ne_def[symmetric])
  have vne: "vs \<noteq> []"
    using assms r t p n rf vs
    by (auto simp: validateGenerationContract_def ne_def[symmetric])
  obtain ss where ss: "validateSources vs 0 = Inr ss"
    using assms r t p n rf vs vne by (cases "validateSources vs 0")
      (auto simp: validateGenerationContract_def ne_def[symmetric])
  have c: "c = \<lparr>taskId = t, prompt = p, negativePrompt = n, reference = rf, sources = ss,
                model = JUndefined\<rparr>"
    using assms r t p n rf vs vne ss
    by (simp add: validateGenerationContract_def ne_def[symmetric])
  show "ensureString (get input ''taskId'') ''taskId'' False = Inr (taskId c)" by (simp add: c t)
  show "ensureString (get input ''prompt'') ''prompt'' False = Inr (prompt c)" by (simp add: c p)
  show "(if get input ''negativePrompt'' = JUndefined then Inr []
          else ensureString (get input ''negativePrompt'') ''negativePrompt'' True)
         = Inr (negativePrompt c)" using n by (simp add: c ne_def)
  show "validateReference (get input ''reference'') = Inr (reference c)" by (simp add: c rf)
  show "\<exists>vs. get input ''sources'' = JArr vs \<and> vs \<noteq> [] \<and> validateSources vs 0 = Inr (sources c)"
    using vs vne ss by (simp add: c)
  show "model c = JUndefined" by (simp add: c)
qed

lemma validated_taskId:
  assumes "validateGenerationContract input = Inr c"
  shows "trim (taskId c) = taskId c" and "taskId c \<noteq> []"
proof -
  from validate_Inr(2)[OF assms] obtain s where "taskId c = trim s" "trim s \<noteq> []"
    by (auto simp: ensureString_Inr)
  then show "trim (taskId c) = taskId c" and "taskId c \<noteq> []" by (simp_all add: trim_idem)
qed

lemma assign_Cons: "assign kvs ((k, v) # ps) = assign (put k v kvs) ps"
  by (simp add: assign_def)

lemma get_assign:
  "get (JObj (assign kvs patch)) k
   = (case map_of (rev patch) k of Some v \<Rightarrow> v | None \<Rightarrow> get (JObj kvs) k)"
proof (induction patch arbitrary: kvs)
  case Nil
  then show ?case by (simp add: assign_def)
next
  case (Cons p ps)
  obtain k1 v1 where p: "p = (k1, v1)" by (cases p)
  have "map_of (rev (p # ps)) k
        = (case map_of (rev ps) k of Some v \<Rightarrow> Some v
           | None \<Rightarrow> if k = k1 then Some v1 else None)"
    by (simp add: p map_add_def split: option.splits)
  then show ?case
    unfolding p assign_Cons Cons.IH by (simp add: map_of_put split: option.splits)
qed

lemma status_constant:
  assumes "s \<in> set TASK_STATUSES"
  shows "trim s = s" and "toUpperCase s = s" and "s \<noteq> []"
proof -
  from assms consider "s = ''QUEUED''" | "s = ''PROCESSING''" | "s = ''SUCCESS''" | "s = ''FAILED''"
    by (auto simp: TASK_STATUSES_def)
  then have "trim s = s \<and> toUpperCase s = s \<and> s \<noteq> []"
    by cases (simp_all add: trim_def is_ws_def toUpperCase_def upper_char_def)
  then show "trim s = s" and "toUpperCase s = s" and "s \<noteq> []" by simp_all
qed

lemma valid_task_view:
  assumes "valid_task task"
  shows "\<exists>view. toTaskView now task = Inr view"
proof -
  from assms obtain t s where r: "isRecord task" and t: "get task ''taskId'' = JStr t" "trim t \<noteq> []"
    and s: "get task ''status'' = JStr s" "s \<in> set TASK_STATUSES"
    by (auto simp: valid_task_def split: jsval.splits)
  note c = status_constant[OF s(2)]
  have "\<exists>out. createStatusResponse now task = Inr out"
    using r t s c by (simp add: createStatusResponse_def ensureString_def Let_def)
  then show ?thesis by (auto simp: toTaskView_def)
qed

lemma tasks_broadcast [simp]:
  "tasks (broadcastTaskEvent tid ev payload srv) = tasks srv"
  "running (broadcastTaskEvent tid ev payload srv) = running srv"
  "timers (broadcastTaskEvent tid ev payload srv) = timers srv"
  "sseClients (broadcastTaskEvent tid ev payload srv) = sseClients srv"
  by (simp_all add: broadcastTaskEvent_def split: option.splits)

lemma updateTask_absent: "tasks srv tid = None \<Longrightarrow> updateTask now tid patch srv = (srv, None)"
  by (simp add: updateTask_def)

lemma updateTask_present:
  assumes "tasks srv tid = Some task" and "valid_task task"
    and "map_of (rev patch) ''taskId'' = None"
    and "case map_of (rev patch) ''status'' of
           Some v \<Rightarrow> (\<exists>s. v = JStr s \<and> s \<in> set TASK_STATUSES) | None \<Rightarrow> True"
  shows "\<exists>task' view.
           updateTask now tid patch srv
             = (broadcastTaskEvent tid ''status'' view (srv\<lparr>tasks := (tasks srv)(tid \<mapsto> task')\<rparr>), None)
           \<and> valid_task task'
           \<and> get task' ''status''
               = (case map_of (rev patch) ''status'' of Some v \<Rightarrow> v | None \<Rightarrow> get task ''status'')"
proof -
  from assms(2) obtain kvs where kvs: "task = JObj kvs"
    by (cases task) (auto simp: valid_task_def)
  define task' where "task' = JObj (assign (assign kvs patch) [(''updatedAt'', JStr now)])"
  have g: "get task' k = (case map_of (rev patch) k of Some v \<Rightarrow> v | None \<Rightarrow> get task k)"
    if "k \<noteq> ''updatedAt''" for k
    using that unfolding task'_def kvs get_assign[of "assign kvs patch"] get_assign[of kvs]
    by simp
  have gt: "get task' ''taskId'' = get task ''taskId''"
    using g[of "''taskId''"] assms(3) by simp
  have gs: "get task' ''status''
            = (case map_of (rev patch) ''status'' of Some v \<Rightarrow> v | None \<Rightarrow> get task ''status'')"
    using g[of "''status''"] by simp
  have v: "valid_task task'"
    using assms(2,4) unfolding valid_task_def gt gs
    by (auto simp: task'_def split: option.splits)
  from valid_task_view[OF v] obtain view where view: "toTaskView now task' = Inr view" ..
  have "updateTask now tid patch srv
          = (broadcastTaskEvent tid ''status'' view (srv\<lparr>tasks := (tasks srv)(tid \<mapsto> task')\<rparr>), None)"
    using assms(1) view by (simp add: updateTask_def kvs task'_def[symmetric] Let_def)
  with v gs show ?thesis by blast
qed

lemma status_of_upd:
  "status_of (srv\<lparr>tasks := (tasks srv)(tid \<mapsto> task')\<rparr>) t
   = (if t = tid then Some (get task' ''status'') else status_of srv t)"
  by (simp add: status_of_def)

lemma status_of_broadcast [simp]:
  "status_of (broadcastTaskEvent tid ev payload srv) t = status_of srv t"
  by (simp add: status_of_def)

lemma valid_store_upd:
  "valid_store srv \<Longrightarrow> valid_task task' \<Longrightarrow> valid_store (srv\<lparr>tasks := (tasks srv)(tid \<mapsto> task')\<rparr>)"
  by (simp add: valid_store_def)

lemma valid_store_broadcast [simp]:
  "valid_store (broadcastTaskEvent tid ev payload srv) = valid_store srv"
  by (simp add: valid_store_def)

text \<open>
  The effect of \<^verbatim>\<open>updateTask\<close> on a store of valid tasks, for a patch that leaves \<^verbatim>\<open>taskId\<close>
  alone and sets \<^verbatim>\<open>status\<close>, if at all, to one of the four statuses.
\<close>

lemma updateTask_effect:
  assumes "valid_store srv"
    and "map_of (rev patch) ''taskId'' = None"
    and "case map_of (rev patch) ''status'' of
           Some v \<Rightarrow> (\<exists>s. v = JStr s \<and> s \<in> set TASK_STATUSES) | None \<Rightarrow> True"
  shows "snd (updateTask now tid patch srv) = None"
    and "valid_store (fst (updateTask now tid patch srv))"
    and "running (fst (updateTask now tid patch srv)) = running srv"
    and "timers (fst (updateTask now tid patch srv)) = timers srv"
    and "status_of (fst (updateTask now tid patch srv)) t
         = (if t = tid
            then map_option (\<lambda>old. case map_of (rev patch) ''status'' of Some v \<Rightarrow> v | None \<Rightarrow> old)
                   (status_of srv tid)
            else status_of srv t)"
proof -
  have "snd (updateTask now tid patch srv) = None
      \<and> valid_store (fst (updateTask now tid patch srv))
      \<and> running (fst (updateTask now tid patch srv)) = running srv
      \<and> timers (fst (updateTask now tid patch srv)) = timers srv
      \<and> status_of (fst (updateTask now tid patch srv)) t
         = (if t = tid
            then map_option (\<lambda>old. case map_of (rev patch) ''status'' of Some v \<Rightarrow> v | None \<Rightarrow> old)
                   (status_of srv tid)
            else status_of srv t)"
  proof (cases "tasks srv tid")
    case None
    then show ?thesis using assms(1) by (simp add: updateTask_absent status_of_def)
  next
    case (Some task)
    with assms(1) have vt: "valid_task task" by (simp add: valid_store_def)
    from updateTask_present[OF Some vt assms(2,3), of now] obtain task' view where
      u: "updateTask now tid patch srv
             = (broadcastTaskEvent tid ''status'' view (srv\<lparr>tasks := (tasks srv)(tid \<mapsto> task')\<rparr>), None)"
      and v: "valid_task task'"
      and s: "get task' ''status''
               = (case map_of (rev patch) ''status'' of Some v \<Rightarrow> v | None \<Rightarrow> get task ''status'')"
      by blast
    have so: "status_of srv tid = Some (get task ''status'')" using Some by (simp add: status_of_def)
    show ?thesis
      unfolding u using valid_store_upd[OF assms(1) v, of tid]
      by (simp add: status_of_upd s so)
  qed
  then show "snd (updateTask now tid patch srv) = None"
    and "valid_store (fst (updateTask now tid patch srv))"
    and "running (fst (updateTask now tid patch srv)) = running srv"
    and "timers (fst (updateTask now tid patch srv)) = timers srv"
    and "status_of (fst (updateTask now tid patch srv)) t
         = (if t = tid
            then map_option (\<lambda>old. case map_of (rev patch) ''status'' of Some v \<Rightarrow> v | None \<Rightarrow> old)
                   (status_of srv tid)
            else status_of srv t)"
    by simp_all
qed
lemma runTask_failed_effect:
  assumes "valid_store srv"
  shows "\<exists>s. runTask_failed now tid err srv = [s] \<and> valid_store s
             \<and> running s = running srv \<and> timers s = timers srv
             \<and> (\<forall>t. status_of s t
                    = (if t = tid then map_option (\<lambda>old. JStr ''FAILED'') (status_of srv tid)
                       else status_of srv t))"
proof -
  define patch where "patch = [(''status'', JStr ''FAILED''), (''outputUrl'', JNull),
                  (''errorCode'', get (serializeError err) ''code''),
                  (''message'', get (serializeError err) ''message'')]"
  have p1: "map_of (rev patch) ''taskId'' = None" by (simp add: patch_def)
  have p2: "map_of (rev patch) ''status'' = Some (JStr ''FAILED'')" by (simp add: patch_def)
  have p3: "case map_of (rev patch) ''status'' of
           Some v \<Rightarrow> (\<exists>s. v = JStr s \<and> s \<in> set TASK_STATUSES) | None \<Rightarrow> True"
    by (simp add: p2 TASK_STATUSES_def)
  note e = updateTask_effect[OF assms p1 p3, of now tid]
  have "runTask_failed now tid err srv = [fst (updateTask now tid patch srv)]"
    by (simp add: runTask_failed_def Let_def patch_def)
  then show ?thesis using e(2,3,4) e(5) by (simp add: p2)
qed

lemma runTask_resolved_effect:
  assumes "valid_store srv"
  shows "\<exists>s. runTask_resolved now tid result write_error srv = [s] \<and> valid_store s
             \<and> running s = running srv \<and> timers s = timers srv
             \<and> (\<forall>t. status_of s t
                    = (if t = tid
                       then map_option (\<lambda>old. if write_error = None then JStr ''SUCCESS''
                                               else JStr ''FAILED'') (status_of srv tid)
                       else status_of srv t))"
proof (cases write_error)
  case (Some err)
  then show ?thesis using runTask_failed_effect[OF assms, of now tid err]
    by (simp add: runTask_resolved_def)
next
  case None
  define patch where "patch = [(''status'', JStr ''SUCCESS''),
                      (''outputUrl'', JStr (''/outputs/'' @ tid @ ''.'' @ outputExtension result)),
                      (''errorCode'', JNull),
                      (''message'', if length (warnings result) > 0
                                    then JStr ''completed_with_warnings'' else JNull),
                      (''warnings'', JArr (map JStr (warnings result))),
                      (''workflowGraph'', workflowGraph result),
                      (''progress'', JObj [(''stage'', JStr ''DONE''), (''progress'', JNum (Fin 1))])]"
  have p1: "map_of (rev patch) ''taskId'' = None" by (simp add: patch_def)
  have p2: "map_of (rev patch) ''status'' = Some (JStr ''SUCCESS'')" by (simp add: patch_def)
  have p3: "case map_of (rev patch) ''status'' of
           Some v \<Rightarrow> (\<exists>s. v = JStr s \<and> s \<in> set TASK_STATUSES) | None \<Rightarrow> True"
    by (simp add: p2 TASK_STATUSES_def)
  note e = updateTask_effect[OF assms p1 p3, of now tid]
  obtain s1 where s1: "updateTask now tid patch srv = (s1, None)"
    using e(1) by (cases "updateTask now tid patch srv") simp
  have "runTask_resolved now tid result write_error srv = [s1]"
    using s1 by (simp add: runTask_resolved_def None Let_def patch_def)
  then show ?thesis using e(2,3,4) e(5) s1 by (simp add: p2 None)
qed

lemma runTask_start_effect:
  assumes "valid_store srv" and "tasks srv (taskId c) \<noteq> None"
  shows "runTask_start env now c srv \<noteq> []"
    and "\<forall>s \<in> set (runTask_start env now c srv).
           valid_store s \<and> timers s = timers srv
           \<and> (\<forall>t. status_of s t = (if t = taskId c then Some (JStr ''PROCESSING'')
                                    else status_of srv t))"
    and "running (last (runTask_start env now c srv)) = running srv @ [taskId c]"
proof -
  define patch where "patch = [(''status'', JStr ''PROCESSING''),
                      (''errorCode'', JNull),
                      (''message'', JNull),
                      (''outputUrl'', JNull),
                      (''progress'', JObj [(''stage'', JStr ''QUEUED''), (''progress'', JNum (Fin 0))])]"
  define stage where "stage = [(''progress'',
                                 JObj [(''stage'', JStr ''REFERENCE_PREPROCESS''),
                                       (''progress'', JNum (double_of_rat (1 / 5)))])]"
  have p1: "map_of (rev patch) ''taskId'' = None" by (simp add: patch_def)
  have p2: "map_of (rev patch) ''status'' = Some (JStr ''PROCESSING'')" by (simp add: patch_def)
  have p3: "case map_of (rev patch) ''status'' of
           Some v \<Rightarrow> (\<exists>s. v = JStr s \<and> s \<in> set TASK_STATUSES) | None \<Rightarrow> True"
    by (simp add: p2 TASK_STATUSES_def)
  have q1: "map_of (rev stage) ''taskId'' = None" by (simp add: stage_def)
  have q2: "map_of (rev stage) ''status'' = None" by (simp add: stage_def)
  have q3: "case map_of (rev stage) ''status'' of
           Some v \<Rightarrow> (\<exists>s. v = JStr s \<and> s \<in> set TASK_STATUSES) | None \<Rightarrow> True"
    by (simp add: q2)
  note e = updateTask_effect[OF assms(1) p1 p3, of now "taskId c"]
  obtain s1 where s1: "updateTask now (taskId c) patch srv = (s1, None)"
    using e(1) by (cases "updateTask now (taskId c) patch srv") simp
  have tracked: "status_of srv (taskId c) \<noteq> None" using assms(2) by (simp add: status_of_def)
  have s1v: "valid_store s1" "running s1 = running srv" "timers s1 = timers srv"
    using e(2,3,4) s1 by simp_all
  have s1s: "status_of s1 t = (if t = taskId c then Some (JStr ''PROCESSING'') else status_of srv t)"
    for t using e(5)[of t] s1 tracked by (auto simp: p2)
  define suspended where "suspended = s1\<lparr>running := running s1 @ [taskId c]\<rparr>"
  have sv: "valid_store suspended" "running suspended = running srv @ [taskId c]"
    "timers suspended = timers srv"
    using s1v by (simp_all add: suspended_def valid_store_def)
  have ss: "status_of suspended t = status_of s1 t" for t
    by (simp add: suspended_def status_of_def)
  note f = updateTask_effect[OF sv(1) q1 q3, of now "taskId c"]
  define s2 where "s2 = fst (updateTask now (taskId c) stage suspended)"
  have s2v: "valid_store s2" "running s2 = running srv @ [taskId c]" "timers s2 = timers srv"
    using f(2,3,4) sv by (simp_all add: s2_def)
  have s2s: "status_of s2 t = (if t = taskId c then Some (JStr ''PROCESSING'') else status_of srv t)"
    for t using f(5)[of t] s1s[of t] ss[of t] by (auto simp: s2_def q2)
  from assms(2) obtain task where task: "tasks srv (taskId c) = Some task" by auto
  have "runTask_start env now c srv = [suspended] \<or> runTask_start env now c srv = [s1, s2]"
    unfolding runTask_start_def Let_def task
    by (simp add: patch_def[symmetric] s1 suspended_def[symmetric] stage_def[symmetric]
                  s2_def[symmetric] split: sum.splits)
  then show "runTask_start env now c srv \<noteq> []"
    and "\<forall>s \<in> set (runTask_start env now c srv).
           valid_store s \<and> timers s = timers srv
           \<and> (\<forall>t. status_of s t = (if t = taskId c then Some (JStr ''PROCESSING'')
                                    else status_of srv t))"
    and "running (last (runTask_start env now c srv)) = running srv @ [taskId c]"
    using sv s1v s2v s1s s2s ss by auto
qed
lemma valid_createTaskRecord:
  assumes "validateGenerationContract body = Inr c"
  shows "valid_task (createTaskRecord now c)"
  using validated_taskId[OF assms]
  by (simp add: valid_task_def createTaskRecord_def TASK_STATUSES_def)

lemma post_accept:
  fixes now :: string and c :: contract and srv :: server
  assumes "valid_store srv" and "validateGenerationContract body = Inr c"
    and "tasks srv (taskId c) = None"
  defines "s1 \<equiv> srv\<lparr>tasks := (tasks srv)(taskId c \<mapsto> createTaskRecord now c),
                      timers := timers srv @ [taskId c]\<rparr>"
  shows "fire enc env (Post now body) srv = s1 # runTask_start env now c s1"
    and "fst (fst (post_tasks enc env now body srv)) = 202"
    and "valid_store s1"
    and "running s1 = running srv"
    and "timers s1 = timers srv @ [taskId c]"
    and "status_of s1 t = (if t = taskId c then Some (JStr ''QUEUED'') else status_of srv t)"
proof -
  note v = valid_createTaskRecord[OF assms(2), of now]
  from valid_task_view[OF v] obtain view where view: "toTaskView now (createTaskRecord now c) = Inr view" ..
  have p: "post_tasks enc env now body srv
           = ((202, JObj (assign (props view)
                            [(''statusUrl'', JStr (''/api/tasks/'' @ enc (taskId c))),
                             (''streamUrl'', JStr (''/api/tasks/'' @ enc (taskId c) @ ''/events''))])),
              s1 # runTask_start env now c s1)"
    using assms(2,3) view by (simp add: post_tasks_def Let_def s1_def)
  show "fire enc env (Post now body) srv = s1 # runTask_start env now c s1" by (simp add: p)
  show "fst (fst (post_tasks enc env now body srv)) = 202" by (simp add: p)
  show "valid_store s1" using assms(1) v by (simp add: valid_store_def s1_def)
  show "running s1 = running srv" by (simp add: s1_def)
  show "timers s1 = timers srv @ [taskId c]" by (simp add: s1_def)
  show "status_of s1 t = (if t = taskId c then Some (JStr ''QUEUED'') else status_of srv t)"
    by (simp add: s1_def status_of_def createTaskRecord_def)
qed

lemma forward_refl [simp]: "forward a a"
  by (simp add: forward_def)

lemma successively_forward_const:
  "forward a v \<Longrightarrow> \<forall>x \<in> set xs. x = v \<Longrightarrow> successively forward (a # xs)"
proof (induction xs arbitrary: a)
  case Nil
  then show ?case by simp
next
  case (Cons x xs)
  then have "x = v" "\<forall>y \<in> set xs. y = v" by simp_all
  with Cons.prems(1) Cons.IH[of v] show ?case by simp
qed

lemma own_runI:
  assumes "valid_store srv" and "count_list (running srv) tid \<le> 1"
    and "\<And>s. status_of srv tid = Some s \<Longrightarrow> tid \<in> set (running srv) \<Longrightarrow> s = JStr ''PROCESSING''"
    and "\<And>s. status_of srv tid = Some s \<Longrightarrow> tid \<notin> set (running srv)
                   \<Longrightarrow> s = JStr ''SUCCESS'' \<or> s = JStr ''FAILED''"
  shows "own_run tid srv"
  using assms unfolding own_run_def by auto

lemma own_runD:
  assumes "own_run tid srv"
  shows "valid_store srv" and "count_list (running srv) tid \<le> 1"
    and "status_of srv tid = Some s \<Longrightarrow> tid \<in> set (running srv) \<Longrightarrow> s = JStr ''PROCESSING''"
    and "status_of srv tid = Some s \<Longrightarrow> tid \<notin> set (running srv)
           \<Longrightarrow> s = JStr ''SUCCESS'' \<or> s = JStr ''FAILED''"
  using assms unfolding own_run_def by (auto split: if_splits)

lemma count_list_remove1:
  "count_list (remove1 x xs) y
   = (if x = y \<and> x \<in> set xs then count_list xs y - 1 else count_list xs y)"
  by (induction xs) auto

lemma single_run_removed:
  "count_list xs x \<le> 1 \<Longrightarrow> x \<notin> set (remove1 x xs)"
proof (induction xs)
  case Nil
  then show ?case by simp
next
  case (Cons a xs)
  show ?case
  proof (cases "a = x")
    case True
    with Cons.prems have "count_list xs x = 0" by simp
    then have "x \<notin> set xs" by (rule iffD1[OF count_list_0_iff])
    then show ?thesis using True by simp
  next
    case False
    then show ?thesis using Cons by simp
  qed
qed

lemma fire_Post_step:
  assumes o: "own_run tid srv" and f: "fresh_submission tid (Post now body) srv"
  shows "own_run tid (last (srv # fire enc env (Post now body) srv))
       \<and> successively forward (map (\<lambda>s. status_of s tid) (srv # fire enc env (Post now body) srv))"
proof (cases "validateGenerationContract body")
  case (Inl err)
  then show ?thesis using o by (simp add: post_tasks_def)
next
  case (Inr c)
  show ?thesis
  proof (cases "tasks srv (taskId c)")
    case (Some task)
    then show ?thesis using o Inr by (simp add: post_tasks_def)
  next
    case None
    define s1 where "s1 = srv\<lparr>tasks := (tasks srv)(taskId c \<mapsto> createTaskRecord now c),
                      timers := timers srv @ [taskId c]\<rparr>"
    define ss where "ss = runTask_start env now c s1"
    note v = own_runD[OF o]
    note p1 = post_accept(1)[OF v(1) Inr None, where now = now and enc = enc and env = env,
                             folded s1_def]
    note p3 = post_accept(3)[OF v(1) Inr None, where now = now, folded s1_def]
    note p4 = post_accept(4)[OF v(1) Inr None, where now = now, folded s1_def]
    note p6 = post_accept(6)[OF v(1) Inr None, where now = now, folded s1_def]
    have tr: "tasks s1 (taskId c) \<noteq> None" by (simp add: s1_def)
    note r = runTask_start_effect[OF p3 tr, where env = env and now = now, folded ss_def]
    have fi: "fire enc env (Post now body) srv = s1 # ss" using p1 by (simp add: ss_def)
    have fresh: "tid \<notin> set (running srv)" if "tid = taskId c"
      using f Inr None that by (simp add: fresh_submission_def)
    have st: "status_of s t = (if t = taskId c then Some (JStr ''PROCESSING'') else status_of srv t)"
      if "s \<in> set ss" for s t
      using r(2) that p6 by auto
    have l: "last ss \<in> set ss" using r(1) by simp
    have run: "running (last ss) = running srv @ [taskId c]" using r(3) p4 by simp
    have own: "own_run tid (last ss)"
    proof (rule own_runI)
      show "valid_store (last ss)" using r(2) l by blast
      show "count_list (running (last ss)) tid \<le> 1"
      proof (cases "tid = taskId c")
        case True
        then have "count_list (running srv) tid = 0" using fresh by simp
        then show ?thesis using True by (simp add: run)
      next
        case False
        then show ?thesis using v(2) by (simp add: run)
      qed
    next
      fix s assume a: "status_of (last ss) tid = Some s" "tid \<in> set (running (last ss))"
      show "s = JStr ''PROCESSING''"
      proof (cases "tid = taskId c")
        case True
        then show ?thesis using a(1) st[OF l, of tid] by simp
      next
        case False
        then have "status_of srv tid = Some s" "tid \<in> set (running srv)"
          using a st[OF l, of tid] by (simp_all add: run)
        then show ?thesis by (rule v(3))
      qed
    next
      fix s assume a: "status_of (last ss) tid = Some s" "tid \<notin> set (running (last ss))"
      then have ne: "tid \<noteq> taskId c" by (auto simp: run)
      then have "status_of srv tid = Some s" "tid \<notin> set (running srv)"
        using a st[OF l, of tid] by (simp_all add: run)
      then show "s = JStr ''SUCCESS'' \<or> s = JStr ''FAILED''" by (rule v(4))
    qed
    have path: "successively forward (map (\<lambda>s. status_of s tid) (srv # s1 # ss))"
    proof (cases "tid = taskId c")
      case True
      have "status_of srv tid = None" using None True by (simp add: status_of_def)
      moreover have "status_of s1 tid = Some (JStr ''QUEUED'')" using p6[of tid] True by simp
      moreover have "successively forward (Some (JStr ''QUEUED'') # map (\<lambda>s. status_of s tid) ss)"
        by (rule successively_forward_const[where v = "Some (JStr ''PROCESSING'')"])
           (use st True in \<open>auto simp: forward_def\<close>)
      ultimately show ?thesis by (simp add: forward_def)
    next
      case False
      have "status_of s1 tid = status_of srv tid" using p6[of tid] False by simp
      moreover have "successively forward (status_of srv tid # map (\<lambda>s. status_of s tid) ss)"
        by (rule successively_forward_const[where v = "status_of srv tid"])
           (use st False in auto)
      ultimately show ?thesis by simp
    qed
    show ?thesis unfolding fi using own path r(1) by simp
  qed
qed

lemma own_run_same:
  assumes "own_run tid srv" and "valid_store s" and "running s = running srv"
    and "status_of s tid = status_of srv tid"
  shows "own_run tid s"
  using assms unfolding own_run_def by simp

lemma settle_step:
  assumes o: "own_run tid srv" and r: "tid' \<in> set (running srv)" and v: "valid_store s"
    and rs: "running s = remove1 tid' (running srv)"
    and st: "\<And>t. status_of s t
                 = (if t = tid' then map_option (\<lambda>old. x) (status_of srv tid') else status_of srv t)"
    and x: "x = JStr ''SUCCESS'' \<or> x = JStr ''FAILED''"
  shows "own_run tid s" and "forward (status_of srv tid) (status_of s tid)"
proof -
  note d = own_runD[OF o]
  show "own_run tid s"
  proof (cases "tid = tid'")
    case True
    have gone: "tid \<notin> set (running s)" unfolding rs True[symmetric] using d(2)
      by (rule single_run_removed)
    show ?thesis
    proof (rule own_runI)
      show "valid_store s" by (rule v)
      show "count_list (running s) tid \<le> 1" using gone by simp
    next
      fix u assume "status_of s tid = Some u" "tid \<in> set (running s)"
      then show "u = JStr ''PROCESSING''" using gone by simp
    next
      fix u assume a: "status_of s tid = Some u" "tid \<notin> set (running s)"
      show "u = JStr ''SUCCESS'' \<or> u = JStr ''FAILED''"
        using a(1) st[of tid] x True by (cases "status_of srv tid'") auto
    qed
  next
    case False
    have other: "tid \<in> set (running s) \<longleftrightarrow> tid \<in> set (running srv)" using False rs by simp
    have same: "status_of s tid = status_of srv tid" using st[of tid] False by simp
    show ?thesis
    proof (rule own_runI)
      show "valid_store s" by (rule v)
      show "count_list (running s) tid \<le> 1" using d(2) False by (simp add: rs count_list_remove1)
    next
      fix u assume "status_of s tid = Some u" "tid \<in> set (running s)"
      then have "status_of srv tid = Some u" "tid \<in> set (running srv)" using same other by simp_all
      then show "u = JStr ''PROCESSING''" by (rule d(3))
    next
      fix u assume "status_of s tid = Some u" "tid \<notin> set (running s)"
      then have "status_of srv tid = Some u" "tid \<notin> set (running srv)" using same other by simp_all
      then show "u = JStr ''SUCCESS'' \<or> u = JStr ''FAILED''" by (rule d(4))
    qed
  qed
  show "forward (status_of srv tid) (status_of s tid)"
  proof (cases "tid = tid'")
    case True
    show ?thesis
    proof (cases "status_of srv tid'")
      case None
      then show ?thesis using st[of tid] True by simp
    next
      case (Some u)
      then have "u = JStr ''PROCESSING''" using d(3)[of u] r True by simp
      then show ?thesis using st[of tid] True Some x by (auto simp: forward_def)
    qed
  next
    case False
    then show ?thesis using st[of tid] by simp
  qed
qed

lemma fire_step:
  assumes o: "own_run tid srv" and f: "fresh_submission tid e srv"
  shows "own_run tid (last (srv # fire enc env e srv))
       \<and> successively forward (map (\<lambda>s. status_of s tid) (srv # fire enc env e srv))"
proof (cases e)
  case (Post now body)
  then show ?thesis
    using fire_Post_step[OF o, where now = now and body = body and enc = enc and env = env] f
    by simp
next
  case (Stage now tid' stage)
  note d = own_runD[OF o]
  define patch where "patch = [(''progress'', stage)]"
  have p1: "map_of (rev patch) ''taskId'' = None" by (simp add: patch_def)
  have p2: "map_of (rev patch) ''status'' = None" by (simp add: patch_def)
  have p3: "case map_of (rev patch) ''status'' of
           Some v \<Rightarrow> (\<exists>s. v = JStr s \<and> s \<in> set TASK_STATUSES) | None \<Rightarrow> True"
    by (simp add: p2)
  note u = updateTask_effect[OF d(1) p1 p3, of now tid']
  define s where "s = fst (updateTask now tid' patch srv)"
  have same: "status_of s t = status_of srv t" for t
    using u(5)[of t] by (cases "status_of srv tid'") (auto simp: s_def p2)
  have "own_run tid s" using o u(2,3) same[of tid] unfolding s_def[symmetric] by (rule own_run_same)
  then show ?thesis using o same[of tid]
    by (simp add: Stage patch_def[symmetric] s_def[symmetric])
next
  case (Resolved now tid' result write_error)
  show ?thesis
  proof (cases "tid' \<in> set (running srv)")
    case False
    then show ?thesis using o by (simp add: Resolved)
  next
    case True
    note d = own_runD[OF o]
    define srv' where "srv' = srv\<lparr>running := remove1 tid' (running srv)\<rparr>"
    have v': "valid_store srv'" using d(1) by (simp add: srv'_def valid_store_def)
    have s': "status_of srv' t = status_of srv t" for t by (simp add: srv'_def status_of_def)
    from runTask_resolved_effect[OF v', of now tid' result write_error] obtain s where
      s: "runTask_resolved now tid' result write_error srv' = [s]" "valid_store s"
         "running s = running srv'"
      and st: "\<And>t. status_of s t
                    = (if t = tid'
                       then map_option (\<lambda>old. if write_error = None then JStr ''SUCCESS''
                                               else JStr ''FAILED'') (status_of srv' tid')
                       else status_of srv' t)"
      by blast
    have rs: "running s = remove1 tid' (running srv)" using s(3) by (simp add: srv'_def)
    have st2: "status_of s t
                 = (if t = tid' then map_option (\<lambda>old. if write_error = None then JStr ''SUCCESS''
                                               else JStr ''FAILED'') (status_of srv tid')
                    else status_of srv t)" for t
      using st[of t] by (simp add: s')
    have x: "(if write_error = None then JStr ''SUCCESS'' else JStr ''FAILED'') = JStr ''SUCCESS''
             \<or> (if write_error = None then JStr ''SUCCESS'' else JStr ''FAILED'') = JStr ''FAILED''"
      by simp
    have "own_run tid s" by (rule settle_step(1)[OF o True s(2) rs st2 x])
    moreover have "forward (status_of srv tid) (status_of s tid)"
      by (rule settle_step(2)[OF o True s(2) rs st2 x])
    ultimately have "own_run tid s" "forward (status_of srv tid) (status_of s tid)" by simp_all
    then show ?thesis using True s(1) by (simp add: Resolved srv'_def[symmetric])
  qed
next
  case (Rejected now tid' err)
  show ?thesis
  proof (cases "tid' \<in> set (running srv)")
    case False
    then show ?thesis using o by (simp add: Rejected)
  next
    case True
    note d = own_runD[OF o]
    define srv' where "srv' = srv\<lparr>running := remove1 tid' (running srv)\<rparr>"
    have v': "valid_store srv'" using d(1) by (simp add: srv'_def valid_store_def)
    have s': "status_of srv' t = status_of srv t" for t by (simp add: srv'_def status_of_def)
    from runTask_failed_effect[OF v', of now tid' err] obtain s where
      s: "runTask_failed now tid' err srv' = [s]" "valid_store s" "running s = running srv'"
      and st: "\<And>t. status_of s t
                    = (if t = tid' then map_option (\<lambda>old. JStr ''FAILED'') (status_of srv' tid')
                       else status_of srv' t)"
      by blast
    have rs: "running s = remove1 tid' (running srv)" using s(3) by (simp add: srv'_def)
    have st2: "status_of s t
                 = (if t = tid' then map_option (\<lambda>old. JStr ''FAILED'') (status_of srv tid')
                    else status_of srv t)" for t
      using st[of t] by (simp add: s')
    have x: "JStr ''FAILED'' = JStr ''SUCCESS'' \<or> JStr ''FAILED'' = JStr ''FAILED''" by simp
    have "own_run tid s" by (rule settle_step(1)[OF o True s(2) rs st2 x])
    moreover have "forward (status_of srv tid) (status_of s tid)"
      by (rule settle_step(2)[OF o True s(2) rs st2 x])
    ultimately have "own_run tid s" "forward (status_of srv tid) (status_of s tid)" by simp_all
    then show ?thesis using True s(1) by (simp add: Rejected srv'_def[symmetric])
  qed
next
  case (Evict tid')
  show ?thesis
  proof (cases "tid' \<in> set (timers srv)")
    case False
    then show ?thesis using o by (simp add: Evict)
  next
    case True
    define s where "s = srv\<lparr>tasks := (tasks srv)(tid' := None), timers := remove1 tid' (timers srv)\<rparr>"
    have st: "status_of s t = (if t = tid' then None else status_of srv t)" for t
      by (simp add: s_def status_of_def)
    have "own_run tid s" using o unfolding own_run_def st
      by (auto simp: s_def valid_store_def split: if_splits)
    moreover have "forward (status_of srv tid) (status_of s tid)"
      by (simp add: st forward_def)
    ultimately show ?thesis using True by (simp add: Evict s_def[symmetric])
  qed
next
  case (Subscribe now tid' client)
  have same: "own_run tid (srv\<lparr>sent := a, sseClients := b\<rparr>) = own_run tid srv"
    "status_of (srv\<lparr>sent := a, sseClients := b\<rparr>) t = status_of srv t" for a b t
    by (simp_all add: own_run_def valid_store_def status_of_def)
  show ?thesis using o
    by (simp add: Subscribe same split: option.splits sum.splits)
next
  case (Unsubscribe tid' client)
  have same: "own_run tid (srv\<lparr>sseClients := b\<rparr>) = own_run tid srv"
    "status_of (srv\<lparr>sseClients := b\<rparr>) t = status_of srv t" for b t
    by (simp_all add: own_run_def valid_store_def status_of_def)
  show ?thesis using o
    by (simp add: Unsubscribe same Let_def split: option.splits)
qed

lemma successively_glue:
  assumes "successively P xs" and "xs \<noteq> []" and "successively P (last xs # ys)"
  shows "successively P (xs @ ys)"
proof (cases ys)
  case Nil
  then show ?thesis using assms(1) by simp
next
  case (Cons y zs)
  then show ?thesis using assms by (simp add: successively_append_iff)
qed

lemma trace_forward:
  assumes "own_run tid srv" and "no_stale_run enc env tid evs srv"
  shows "successively forward (map (\<lambda>s. status_of s tid) (srv # trace enc env evs srv))"
  using assms
proof (induction evs arbitrary: srv)
  case Nil
  then show ?case by simp
next
  case (Cons e es)
  define ss where "ss = fire enc env e srv"
  define srv' where "srv' = last (srv # ss)"
  define f where "f = (\<lambda>s. status_of s tid)"
  from Cons.prems(2) have fr: "fresh_submission tid e srv" and n: "no_stale_run enc env tid es srv'"
    by (simp_all add: srv'_def ss_def)
  from fire_step[OF Cons.prems(1) fr, of enc env]
  have o': "own_run tid srv'"
    and p: "successively forward (map f (srv # ss))"
    by (simp_all add: srv'_def ss_def f_def)
  have q: "successively forward (map f (srv' # trace enc env es srv'))"
    unfolding f_def using o' n by (rule Cons.IH)
  have l: "last (map f (srv # ss)) = f srv'"
    unfolding srv'_def by (rule last_map) simp
  have "successively forward (map f (srv # ss) @ map f (trace enc env es srv'))"
    by (rule successively_glue) (use p q l in simp_all)
  moreover have "srv # trace enc env (e # es) srv = (srv # ss) @ trace enc env es srv'"
    by (simp add: Let_def ss_def srv'_def)
  ultimately show ?case unfolding f_def by simp
qed

lemma own_run_initial: "own_run tid initial_server"
  by (simp add: own_run_def initial_server_def valid_store_def status_of_def)

lemma status_of_None: "status_of srv tid = None \<longleftrightarrow> tasks srv tid = None"
  by (simp add: status_of_def)

lemma post_final:
  fixes now :: string and enc :: "string \<Rightarrow> string" and env :: engine_env
  assumes "valid_store srv" and "validateGenerationContract body = Inr c"
    and "tasks srv (taskId c) = None"
  defines "f \<equiv> last (srv # fire enc env (Post now body) srv)"
  shows "valid_store f" and "running f = running srv @ [taskId c]"
    and "timers f = timers srv @ [taskId c]"
    and "status_of f t = (if t = taskId c then Some (JStr ''PROCESSING'') else status_of srv t)"
proof -
  define s1 where "s1 = srv\<lparr>tasks := (tasks srv)(taskId c \<mapsto> createTaskRecord now c),
                      timers := timers srv @ [taskId c]\<rparr>"
  define ss where "ss = runTask_start env now c s1"
  note p1 = post_accept(1)[OF assms(1-3), where now = now and enc = enc and env = env,
                           folded s1_def]
  note p3 = post_accept(3)[OF assms(1-3), where now = now, folded s1_def]
  note p4 = post_accept(4)[OF assms(1-3), where now = now, folded s1_def]
  note p5 = post_accept(5)[OF assms(1-3), where now = now, folded s1_def]
  note p6 = post_accept(6)[OF assms(1-3), where now = now, folded s1_def]
  have tr: "tasks s1 (taskId c) \<noteq> None" by (simp add: s1_def)
  note r = runTask_start_effect[OF p3 tr, where env = env and now = now, folded ss_def]
  have f: "f = last ss" unfolding f_def p1 using r(1) by (simp add: ss_def)
  have l: "last ss \<in> set ss" using r(1) by simp
  show "valid_store f" using r(2) l by (simp add: f)
  show "running f = running srv @ [taskId c]" using r(3) p4 by (simp add: f)
  show "timers f = timers srv @ [taskId c]" using r(2) l p5 by (simp add: f)
  show "status_of f t = (if t = taskId c then Some (JStr ''PROCESSING'') else status_of srv t)"
    using r(2) l p6[of t] by (simp add: f)
qed

lemma trace_append:
  "trace enc env (es1 @ es2) srv
   = trace enc env es1 srv @ trace enc env es2 (last (srv # trace enc env es1 srv))"
proof (induction es1 arbitrary: srv)
  case Nil
  then show ?case by simp
next
  case (Cons e es)
  show ?case
    by (simp add: Let_def Cons.IH last_append)
qed

lemma successively_last_two:
  "successively P (xs @ [y]) \<Longrightarrow> xs \<noteq> [] \<Longrightarrow> P (last xs) y"
  by (simp add: successively_append_iff)
lemma final_state_Nil [simp]: "final_state enc env [] srv = srv"
  by (simp add: final_state_def)

lemma final_state_Cons:
  "final_state enc env (e # es) srv = final_state enc env es (last (srv # fire enc env e srv))"
  by (simp add: final_state_def Let_def last_append)

lemma trace_own_run:
  assumes "own_run tid srv" and "no_stale_run enc env tid evs srv"
  shows "own_run tid (final_state enc env evs srv)"
  using assms
proof (induction evs arbitrary: srv)
  case Nil
  then show ?case by simp
next
  case (Cons e es)
  from Cons.prems(2) have f: "fresh_submission tid e srv"
    and n: "no_stale_run enc env tid es (last (srv # fire enc env e srv))"
    by simp_all
  from fire_step[OF Cons.prems(1) f, of enc env]
  have "own_run tid (last (srv # fire enc env e srv))" by simp
  then show ?case unfolding final_state_Cons using n by (rule Cons.IH)
qed

lemma post_refused:
  assumes "validateGenerationContract body = Inr c" and "tasks srv (taskId c) \<noteq> None"
  shows "fire enc env (Post now body) srv = []"
  using assms by (auto simp: post_tasks_def)

lemma settle_final:
  assumes "valid_store srv" and "tid \<in> set (running srv)" and "tasks srv tid \<noteq> None"
  shows "status_of (final_state enc env [Resolved now tid result None] srv) tid
           = Some (JStr ''SUCCESS'')"
    and "status_of (final_state enc env [Resolved now tid result (Some werr)] srv) tid
           = Some (JStr ''FAILED'')"
    and "status_of (final_state enc env [Rejected now tid err] srv) tid = Some (JStr ''FAILED'')"
    and "valid_store (final_state enc env [Resolved now tid result we] srv)"
    and "running (final_state enc env [Resolved now tid result we] srv) = remove1 tid (running srv)"
    and "valid_store (final_state enc env [Rejected now tid err] srv)"
    and "running (final_state enc env [Rejected now tid err] srv) = remove1 tid (running srv)"
proof -
  define srv' where "srv' = srv\<lparr>running := remove1 tid (running srv)\<rparr>"
  have v': "valid_store srv'" using assms(1) by (simp add: srv'_def valid_store_def)
  from assms(3) obtain u where "status_of srv tid = Some u" by (auto simp: status_of_def)
  then have s': "status_of srv' tid = Some u" by (simp add: srv'_def status_of_def)
  have r': "running srv' = remove1 tid (running srv)" by (simp add: srv'_def)
  have fr: "final_state enc env [Resolved now tid result w] srv
            = last (srv # runTask_resolved now tid result w srv')" for w
    using assms(2) by (simp add: final_state_Cons srv'_def)
  have fj: "final_state enc env [Rejected now tid err] srv
            = last (srv # runTask_failed now tid err srv')"
    using assms(2) by (simp add: final_state_Cons srv'_def)
  show "status_of (final_state enc env [Resolved now tid result None] srv) tid
           = Some (JStr ''SUCCESS'')"
    using runTask_resolved_effect[OF v', of now tid result None] s' unfolding fr by auto
  show "status_of (final_state enc env [Resolved now tid result (Some werr)] srv) tid
           = Some (JStr ''FAILED'')"
    using runTask_resolved_effect[OF v', of now tid result "Some werr"] s' unfolding fr by auto
  show "status_of (final_state enc env [Rejected now tid err] srv) tid = Some (JStr ''FAILED'')"
    using runTask_failed_effect[OF v', of now tid err] s' unfolding fj by auto
  show "valid_store (final_state enc env [Resolved now tid result we] srv)"
    using runTask_resolved_effect[OF v', of now tid result we] unfolding fr by auto
  show "running (final_state enc env [Resolved now tid result we] srv) = remove1 tid (running srv)"
    using runTask_resolved_effect[OF v', of now tid result we] r' unfolding fr by auto
  show "valid_store (final_state enc env [Rejected now tid err] srv)"
    using runTask_failed_effect[OF v', of now tid err] unfolding fj by auto
  show "running (final_state enc env [Rejected now tid err] srv) = remove1 tid (running srv)"
    using runTask_failed_effect[OF v', of now tid err] r' unfolding fj by auto
qed

lemma settle_single:
  assumes "valid_store srv" and "tid \<in> set (running srv)"
  shows "\<exists>s. fire enc env (Rejected now tid err) srv = [s]"
  using runTask_failed_effect[of "srv\<lparr>running := remove1 tid (running srv)\<rparr>" now tid err] assms
  by (auto simp: valid_store_def)

lemma valid_store_initial: "valid_store initial_server"
  by (simp add: valid_store_def initial_server_def)

lemma taskId_example: "taskId example_contract = ''t1''"
  by (simp add: example_contract_def)

text \<open>
  C1, as stated, fails: \<^verbatim>\<open>updateTask\<close> applies every patch, so the run of an evicted task
  writes into a later task of the same id. After the events of \<open>stale_run_events\<close> the
  second task \<^verbatim>\<open>t1\<close> has gone from \<^verbatim>\<open>SUCCESS\<close> to \<^verbatim>\<open>FAILED\<close>.
\<close>

theorem stale_run_changes_terminal_status:
  "\<not> forward_only
       (initial_server # trace (\<lambda>s. s) example_env stale_run_events initial_server) ''t1''"
proof
  let ?enc = "\<lambda>s :: string. s"
  let ?env = example_env
  let ?e1 = "Post ''00:00'' example_body" and ?e2 = "Evict ''t1''"
  let ?e3 = "Post ''01:01'' example_body"
  let ?e4 = "Resolved ''01:02'' ''t1'' example_result None"
  let ?e5 = "Rejected ''01:03'' ''t1'' (Error ''Gemini returned no image part.'')"
  assume fw: "forward_only (initial_server # trace ?enc ?env stale_run_events initial_server) ''t1''"
  define f1 where "f1 = last (initial_server # fire ?enc ?env ?e1 initial_server)"
  define f2 where "f2 = last (f1 # fire ?enc ?env ?e2 f1)"
  define f3 where "f3 = last (f2 # fire ?enc ?env ?e3 f2)"
  define f4 where "f4 = last (f3 # fire ?enc ?env ?e4 f3)"
  have f4: "f4 = final_state ?enc ?env [?e4] f3"
    by (simp only: final_state_Cons final_state_Nil f4_def)
  have t0: "tasks initial_server (taskId example_contract) = None"
    by (simp add: initial_server_def)
  note a = post_final[OF valid_store_initial validate_example t0,
      where now = "''00:00''" and enc = ?enc and env = ?env, folded f1_def, unfolded taskId_example]
  have a1: "valid_store f1" "running f1 = [''t1'']" "timers f1 = [''t1'']"
    using a(1,2,3) by (simp_all add: initial_server_def)
  have f2: "f2 = f1\<lparr>tasks := (tasks f1)(''t1'' := None), timers := []\<rparr>"
    by (simp add: f2_def a1)
  have b1: "valid_store f2" "running f2 = [''t1'']" "timers f2 = []"
    "tasks f2 (taskId example_contract) = None"
    using a1 by (auto simp: f2 valid_store_def taskId_example split: if_splits)
  note c = post_final[OF b1(1) validate_example b1(4),
      where now = "''01:01''" and enc = ?enc and env = ?env, folded f3_def, unfolded taskId_example]
  have c1: "valid_store f3" "running f3 = [''t1'', ''t1'']"
    "status_of f3 ''t1'' = Some (JStr ''PROCESSING'')"
    using c(1,2) c(4)[of "''t1''"] b1 by simp_all
  have c2: "''t1'' \<in> set (running f3)" "tasks f3 ''t1'' \<noteq> None"
    using c1 by (auto simp: status_of_def)
  note d = settle_final[OF c1(1) c2, where enc = ?enc and env = ?env]
  have d1: "status_of f4 ''t1'' = Some (JStr ''SUCCESS'')" "valid_store f4" "running f4 = [''t1'']"
    using d(1) d(4)[of "''01:02''" example_result None] d(5)[of "''01:02''" example_result None] c1(2)
    by (simp_all add: f4)
  have d2: "''t1'' \<in> set (running f4)" "tasks f4 ''t1'' \<noteq> None"
    using d1 by (auto simp: status_of_def)
  from settle_single[OF d1(2) d2(1), of ?enc ?env "''01:03''" "Error ''Gemini returned no image part.''"]
  obtain s5 where s5: "fire ?enc ?env ?e5 f4 = [s5]" by blast
  have "status_of (final_state ?enc ?env [?e5] f4) ''t1'' = Some (JStr ''FAILED'')"
    by (rule settle_final(3)[OF d1(2) d2])
  then have e1: "status_of s5 ''t1'' = Some (JStr ''FAILED'')"
    unfolding final_state_Cons final_state_Nil s5 by simp
  have fin: "final_state ?enc ?env [?e1, ?e2, ?e3, ?e4] initial_server = f4"
    by (simp only: final_state_Cons final_state_Nil f1_def[symmetric] f2_def[symmetric]
                   f3_def[symmetric] f4_def[symmetric])
  have ev: "stale_run_events = [?e1, ?e2, ?e3, ?e4] @ [?e5]" by (simp add: stale_run_events_def)
  have t5: "trace ?enc ?env [?e5] f4 = [s5]" unfolding trace.simps Let_def s5 by simp
  have "trace ?enc ?env stale_run_events initial_server
        = trace ?enc ?env [?e1, ?e2, ?e3, ?e4] initial_server
          @ trace ?enc ?env [?e5] (final_state ?enc ?env [?e1, ?e2, ?e3, ?e4] initial_server)"
    unfolding ev final_state_def by (rule trace_append)
  then have "trace ?enc ?env stale_run_events initial_server
             = trace ?enc ?env [?e1, ?e2, ?e3, ?e4] initial_server @ [s5]"
    by (simp only: fin t5)
  then have "successively forward
               (map (\<lambda>s. status_of s ''t1'') (initial_server # trace ?enc ?env [?e1, ?e2, ?e3, ?e4] initial_server)
                @ [status_of s5 ''t1''])"
    using fw by (simp add: forward_only_def)
  then have "forward (last (map (\<lambda>s. status_of s ''t1'')
                        (initial_server # trace ?enc ?env [?e1, ?e2, ?e3, ?e4] initial_server)))
                     (status_of s5 ''t1'')"
    by (rule successively_last_two) simp
  moreover have "last (map (\<lambda>s. status_of s ''t1'')
                        (initial_server # trace ?enc ?env [?e1, ?e2, ?e3, ?e4] initial_server))
                 = status_of f4 ''t1''"
    unfolding fin[symmetric] final_state_def by (rule last_map) simp
  ultimately show False by (simp add: d1 e1 forward_def)
qed
text \<open>
  C1, amended. Take a task id and a sequence of events in which no submission of that id
  is accepted while a run started for an earlier task of the same id is still suspended
  (submissions that are refused, and whatever happens to other task ids, are not
  restricted). Then the status of that id only moves forward: a task appears as \<^verbatim>\<open>QUEUED\<close>,
  \<^verbatim>\<open>QUEUED\<close> is followed by \<^verbatim>\<open>PROCESSING\<close>, \<^verbatim>\<open>PROCESSING\<close> by \<^verbatim>\<open>SUCCESS\<close> or \<^verbatim>\<open>FAILED\<close>, and
  \<^verbatim>\<open>SUCCESS\<close> and \<^verbatim>\<open>FAILED\<close> stay until the task is evicted. A tracked task whose run is
  suspended becomes \<^verbatim>\<open>SUCCESS\<close> when the executor resolves and the output file is written,
  and \<^verbatim>\<open>FAILED\<close> when the executor rejects or the file cannot be written.
\<close>

theorem status_forward_only_without_stale_run:
  assumes "no_stale_run enc env tid evs initial_server"
  shows "forward_only (initial_server # trace enc env evs initial_server) tid
       \<and> (let srv = final_state enc env evs initial_server
          in tid \<in> set (running srv) \<and> tasks srv tid \<noteq> None \<longrightarrow>
               status_of (final_state enc env [Resolved now tid result None] srv) tid
                 = Some (JStr ''SUCCESS'')
             \<and> status_of (final_state enc env [Resolved now tid result (Some write_error)] srv) tid
                 = Some (JStr ''FAILED'')
             \<and> status_of (final_state enc env [Rejected now tid err] srv) tid
                 = Some (JStr ''FAILED''))"
proof -
  have 1: "forward_only (initial_server # trace enc env evs initial_server) tid"
    using trace_forward[OF own_run_initial assms] by (simp add: forward_only_def)
  have "own_run tid (final_state enc env evs initial_server)"
    using own_run_initial assms by (rule trace_own_run)
  then have v: "valid_store (final_state enc env evs initial_server)" by (rule own_runD(1))
  show ?thesis unfolding Let_def using 1 settle_final(1,2,3)[OF v] by blast
qed

text \<open>
  The task \<^verbatim>\<open>t1\<close> is submitted and, while its run is suspended, submitted again and refused;
  then the run resolves.
\<close>

theorem status_forward_only_without_stale_run_witness:
  "no_stale_run (\<lambda>s. s) example_env ''t1''
     [Post ''00:00'' example_body, Post ''00:01'' example_body] initial_server
   \<and> ''t1'' \<in> set (running (final_state (\<lambda>s. s) example_env
                               [Post ''00:00'' example_body, Post ''00:01'' example_body]
                               initial_server))
   \<and> tasks (final_state (\<lambda>s. s) example_env
              [Post ''00:00'' example_body, Post ''00:01'' example_body] initial_server) ''t1''
       \<noteq> None
   \<and> forward_only
       (initial_server # trace (\<lambda>s. s) example_env
          [Post ''00:00'' example_body, Post ''00:01'' example_body] initial_server)
       ''t1''
   \<and> status_of
       (final_state (\<lambda>s. s) example_env [Resolved ''00:05'' ''t1'' example_result None]
          (final_state (\<lambda>s. s) example_env
             [Post ''00:00'' example_body, Post ''00:01'' example_body] initial_server)) ''t1''
       = Some (JStr ''SUCCESS'')"
proof -
  let ?enc = "\<lambda>s :: string. s"
  let ?evs = "[Post ''00:00'' example_body, Post ''00:01'' example_body]"
  define f1 where
    "f1 = last (initial_server # fire ?enc example_env (Post ''00:00'' example_body) initial_server)"
  have t0: "tasks initial_server (taskId example_contract) = None"
    by (simp add: initial_server_def)
  note a = post_final[OF valid_store_initial validate_example t0,
      where now = "''00:00''" and enc = ?enc and env = example_env, folded f1_def,
      unfolded taskId_example]
  have r1: "''t1'' \<in> set (running f1)" using a(2) by simp
  have "status_of f1 ''t1'' = Some (JStr ''PROCESSING'')" using a(4)[of "''t1''"] by simp
  then have t1: "tasks f1 ''t1'' \<noteq> None" by (auto simp: status_of_def)
  have refused: "fire ?enc example_env (Post ''00:01'' example_body) f1 = []"
    by (rule post_refused[OF validate_example]) (simp add: taskId_example t1)
  have "final_state ?enc example_env ?evs initial_server
        = last (f1 # fire ?enc example_env (Post ''00:01'' example_body) f1)"
    by (simp only: final_state_Cons final_state_Nil f1_def[symmetric])
  then have fs: "final_state ?enc example_env ?evs initial_server = f1"
    unfolding refused by simp
  have h1: "fresh_submission ''t1'' (Post ''00:00'' example_body) initial_server"
    by (simp add: fresh_submission_def validate_example initial_server_def)
  have h2: "fresh_submission ''t1'' (Post ''00:01'' example_body) f1"
    using t1 by (simp add: fresh_submission_def validate_example)
  have h: "no_stale_run ?enc example_env ''t1'' ?evs initial_server"
    by (simp only: no_stale_run.simps f1_def[symmetric] h1 h2 simp_thms)
  from status_forward_only_without_stale_run[OF h, of "''00:05''" example_result
        undefined undefined]
  show ?thesis using h r1 t1 unfolding Let_def fs by blast
qed

text \<open>
  C3. A body that validates to a contract whose task id is tracked is answered with status
  409 and an error of code \<^verbatim>\<open>TASK_EXISTS\<close>, and the turn leaves the module state as it was:
  no task is inserted or replaced, no timer is set, no run is started and nothing is
  written to any event stream.
\<close>

theorem duplicate_task_conflict:
  assumes "validateGenerationContract body = Inr c" and "tasks srv (taskId c) \<noteq> None"
  shows "post_tasks enc env now body srv
           = ((409, JObj [(''error'',
                           JObj [(''code'', JStr ''TASK_EXISTS''),
                                 (''message'', JStr (''taskId '' @ taskId c @ '' already exists''))])]),
              [])
       \<and> final_state enc env [Post now body] srv = srv"
  using assms by (auto simp: post_tasks_def final_state_Cons)

theorem duplicate_task_conflict_witness:
  "validateGenerationContract example_body = Inr example_contract
   \<and> tasks (final_state (\<lambda>s. s) example_env [Post ''00:00'' example_body] initial_server)
        (taskId example_contract) \<noteq> None
   \<and> fst (fst (post_tasks (\<lambda>s. s) example_env ''00:01'' example_body
                 (final_state (\<lambda>s. s) example_env [Post ''00:00'' example_body] initial_server)))
       = 409
   \<and> final_state (\<lambda>s. s) example_env [Post ''00:00'' example_body, Post ''00:01'' example_body]
        initial_server
       = final_state (\<lambda>s. s) example_env [Post ''00:00'' example_body] initial_server"
proof -
  let ?enc = "\<lambda>s :: string. s"
  let ?evs = "[Post ''00:00'' example_body]"
  have t0: "tasks initial_server (taskId example_contract) = None"
    by (simp add: initial_server_def)
  have fs: "final_state ?enc example_env ?evs initial_server
            = last (initial_server # fire ?enc example_env (Post ''00:00'' example_body) initial_server)"
    by (simp only: final_state_Cons final_state_Nil)
  note a = post_final[OF valid_store_initial validate_example t0,
      where now = "''00:00''" and enc = ?enc and env = example_env, folded fs]
  have "status_of (final_state ?enc example_env ?evs initial_server) (taskId example_contract)
        = Some (JStr ''PROCESSING'')"
    using a(4)[of "taskId example_contract"] by simp
  then have t: "tasks (final_state ?enc example_env ?evs initial_server) (taskId example_contract)
                \<noteq> None"
    by (auto simp: status_of_def)
  note d = duplicate_task_conflict[OF validate_example t, of ?enc example_env "''00:01''"]
  have two: "final_state ?enc example_env [Post ''00:00'' example_body, Post ''00:01'' example_body]
               initial_server
             = final_state ?enc example_env [Post ''00:01'' example_body]
                 (final_state ?enc example_env ?evs initial_server)"
    by (simp only: final_state_Cons final_state_Nil)
  show ?thesis using validate_example t d by (simp add: two)
qed

lemma upper_char_other: "c \<notin> set ''abcdefghijklmnopqrstuvwxyz'' \<Longrightarrow> upper_char c = c"
  by (simp add: upper_char_def)

lemma upper_char_lower:
  "c \<in> set ''abcdefghijklmnopqrstuvwxyz'' \<Longrightarrow> upper_char c \<in> set ''ABCDEFGHIJKLMNOPQRSTUVWXYZ''"
  unfolding upper_char_def by (simp, elim disjE; simp)

lemma letter_props:
  "c \<in> set ''abcdefghijklmnopqrstuvwxyzABCDEFGHIJKLMNOPQRSTUVWXYZ''
   \<Longrightarrow> \<not> is_ws c \<and> \<not> is_digit c \<and> c \<noteq> CHR '']''"
  unfolding is_ws_def is_digit_def by (simp, elim disjE; simp)

lemma upper_not_lower:
  "c \<in> set ''ABCDEFGHIJKLMNOPQRSTUVWXYZ'' \<Longrightarrow> c \<notin> set ''abcdefghijklmnopqrstuvwxyz''"
  by (simp, elim disjE; simp)

lemma upper_char_cases:
  "upper_char c = c \<or> (c \<in> set ''abcdefghijklmnopqrstuvwxyz''
                        \<and> upper_char c \<in> set ''ABCDEFGHIJKLMNOPQRSTUVWXYZ'')"
  using upper_char_other[of c] upper_char_lower[of c] by blast

lemma letter_in:
  "c \<in> set ''abcdefghijklmnopqrstuvwxyz'' \<or> c \<in> set ''ABCDEFGHIJKLMNOPQRSTUVWXYZ''
   \<Longrightarrow> c \<in> set ''abcdefghijklmnopqrstuvwxyzABCDEFGHIJKLMNOPQRSTUVWXYZ''"
  by auto

lemma upper_char_idem [simp]: "upper_char (upper_char c) = upper_char c"
proof (cases "c \<in> set ''abcdefghijklmnopqrstuvwxyz''")
  case True
  then have "upper_char c \<notin> set ''abcdefghijklmnopqrstuvwxyz''"
    by (intro upper_not_lower upper_char_lower)
  then show ?thesis by (rule upper_char_other)
next
  case False
  then have "upper_char c = c" by (rule upper_char_other)
  then show ?thesis by (simp only:)
qed

lemma upper_char_class:
  "is_ws (upper_char c) = is_ws c" "is_digit (upper_char c) = is_digit c"
  "upper_char c = CHR '']'' \<longleftrightarrow> c = CHR '']''"
proof -
  have "is_ws (upper_char c) = is_ws c \<and> is_digit (upper_char c) = is_digit c
        \<and> (upper_char c = CHR '']'' \<longleftrightarrow> c = CHR '']'')"
  proof (cases "c \<in> set ''abcdefghijklmnopqrstuvwxyz''")
    case True
    then have u: "upper_char c \<in> set ''ABCDEFGHIJKLMNOPQRSTUVWXYZ''" by (rule upper_char_lower)
    have "c \<in> set ''abcdefghijklmnopqrstuvwxyzABCDEFGHIJKLMNOPQRSTUVWXYZ''"
      using True by (intro letter_in) blast
    moreover have "upper_char c \<in> set ''abcdefghijklmnopqrstuvwxyzABCDEFGHIJKLMNOPQRSTUVWXYZ''"
      using u by (intro letter_in) blast
    ultimately show ?thesis using letter_props by blast
  next
    case False
    then have "upper_char c = c" by (rule upper_char_other)
    then show ?thesis by (simp only:)
  qed
  then show "is_ws (upper_char c) = is_ws c" "is_digit (upper_char c) = is_digit c"
    "upper_char c = CHR '']'' \<longleftrightarrow> c = CHR '']''" by blast+
qed

declare upper_char_class [simp]


lemma ci_eq_upper [simp]: "ci_eq p (upper_char c) = ci_eq p c"
  by (simp add: ci_eq_def)
























lemma extractPromptIndexing_string:
  "\<exists>r. extractPromptIndexing (JStr p) n = Inr r"
  by (simp add: extractPromptIndexing_def ensureString_def Let_def)

lemma buildWorkflowGraph_shape:
  "\<exists>indexing sourceNodes.
     buildWorkflowGraph env c =
       Inr (JObj
            [(''name'', JStr ''MEIE-DualTrack-Gemini''),
             (''version'', JStr ''0.2.0''),
             (''model'', js_or (model c) (JStr (DEFAULT_MODEL env))),
             (''promptIndexing'', indexing),
             (''nodes'', JArr
                [JObj [(''id'', JStr ''reference''),
                       (''role'', JStr ''REFERENCE''),
                       (''engineNode'', JStr ''composition_constraint''),
                       (''weight'', JNum (weight (reference c)))],
                 JObj [(''id'', JStr ''feature-track''),
                       (''role'', JStr ''TRACK_B''),
                       (''engineNode'', JStr ''multi_source_feature_fusion''),
                       (''sources'', sourceNodes)],
                 JObj [(''id'', JStr ''gemini-generate''),
                       (''role'', JStr ''MERGE''),
                       (''engineNode'', JStr ''generateContent''),
                       (''prompt'', JStr (prompt c))]])])"
proof -
  obtain r where "extractPromptIndexing (JStr (prompt c)) (Fin (of_nat (length (sources c)))) = Inr r"
    using extractPromptIndexing_string by blast
  then show ?thesis by (simp add: buildWorkflowGraph_def)
qed

lemma js_or_idem: "js_or (js_or a b) b = js_or a b"
  by (simp add: js_or_def)

text \<open>
  C5, amended. The workflow graph of a run has exactly three nodes, with the roles
  \<^verbatim>\<open>REFERENCE\<close>, \<^verbatim>\<open>TRACK_B\<close> and \<^verbatim>\<open>MERGE\<close> in this order; the \<^verbatim>\<open>MERGE\<close> node carries the prompt and
  no model; the graph itself carries the resolved model, which is the \<^verbatim>\<open>model\<close> of the
  contract object handed to the engine when that is truthy and the configured default
  otherwise.
\<close>

theorem workflow_graph_nodes_and_model:
  "\<exists>graph n1 n2 n3.
     buildWorkflowGraph env (with_target_model env c) = Inr graph
     \<and> graph_nodes graph = [n1, n2, n3]
     \<and> get n1 ''role'' = JStr ''REFERENCE''
     \<and> get n2 ''role'' = JStr ''TRACK_B''
     \<and> get n3 ''role'' = JStr ''MERGE''
     \<and> get n3 ''prompt'' = JStr (prompt c)
     \<and> get n3 ''model'' = JUndefined
     \<and> get graph ''model'' = (if truthy (model c) then model c else JStr (DEFAULT_MODEL env))"
proof -
  from buildWorkflowGraph_shape[of env "with_target_model env c"]
  obtain indexing sourceNodes where
    g: "buildWorkflowGraph env (with_target_model env c) =
       Inr (JObj
            [(''name'', JStr ''MEIE-DualTrack-Gemini''),
             (''version'', JStr ''0.2.0''),
             (''model'', js_or (model (with_target_model env c)) (JStr (DEFAULT_MODEL env))),
             (''promptIndexing'', indexing),
             (''nodes'', JArr
                [JObj [(''id'', JStr ''reference''),
                       (''role'', JStr ''REFERENCE''),
                       (''engineNode'', JStr ''composition_constraint''),
                       (''weight'', JNum (weight (reference (with_target_model env c))))],
                 JObj [(''id'', JStr ''feature-track''),
                       (''role'', JStr ''TRACK_B''),
                       (''engineNode'', JStr ''multi_source_feature_fusion''),
                       (''sources'', sourceNodes)],
                 JObj [(''id'', JStr ''gemini-generate''),
                       (''role'', JStr ''MERGE''),
                       (''engineNode'', JStr ''generateContent''),
                       (''prompt'', JStr (prompt (with_target_model env c)))]])])"
    by blast
  have m: "js_or (model (with_target_model env c)) (JStr (DEFAULT_MODEL env))
           = (if truthy (model c) then model c else JStr (DEFAULT_MODEL env))"
    by (simp add: with_target_model_def js_or_def)
  have p: "prompt (with_target_model env c) = prompt c" by (simp add: with_target_model_def)
  show ?thesis unfolding g m p by (simp add: graph_nodes_def)
qed

lemma model_example: "model example_contract = JUndefined"
  by (simp add: example_contract_def)

text \<open>
  C5, as stated, fails on the example: the \<^verbatim>\<open>MERGE\<close> node of the graph has no \<^verbatim>\<open>model\<close>
  property. (The request body asked for \<^verbatim>\<open>custom-model\<close>; the validated contract has no
  \<^verbatim>\<open>model\<close>, and the graph names the default model.)
\<close>

theorem merge_node_has_no_model:
  "validateGenerationContract example_body = Inr example_contract
   \<and> get example_body ''model'' = JStr ''custom-model''
   \<and> isl (buildWorkflowGraph example_env (with_target_model example_env example_contract)) = False
   \<and> map (\<lambda>node. (get node ''role'', get node ''model''))
        (graph_nodes (projr (buildWorkflowGraph example_env
                               (with_target_model example_env example_contract))))
       = [(JStr ''REFERENCE'', JUndefined), (JStr ''TRACK_B'', JUndefined),
          (JStr ''MERGE'', JUndefined)]
   \<and> get (projr (buildWorkflowGraph example_env (with_target_model example_env example_contract)))
         ''model''
       = JStr ''gemini-3-pro-image-preview''"
proof -
  from buildWorkflowGraph_shape[of example_env "with_target_model example_env example_contract"]
  obtain indexing sourceNodes where
    g: "buildWorkflowGraph example_env (with_target_model example_env example_contract) =
       Inr (JObj
            [(''name'', JStr ''MEIE-DualTrack-Gemini''),
             (''version'', JStr ''0.2.0''),
             (''model'', js_or (model (with_target_model example_env example_contract))
                           (JStr (DEFAULT_MODEL example_env))),
             (''promptIndexing'', indexing),
             (''nodes'', JArr
                [JObj [(''id'', JStr ''reference''),
                       (''role'', JStr ''REFERENCE''),
                       (''engineNode'', JStr ''composition_constraint''),
                       (''weight'', JNum (weight (reference (with_target_model example_env example_contract))))],
                 JObj [(''id'', JStr ''feature-track''),
                       (''role'', JStr ''TRACK_B''),
                       (''engineNode'', JStr ''multi_source_feature_fusion''),
                       (''sources'', sourceNodes)],
                 JObj [(''id'', JStr ''gemini-generate''),
                       (''role'', JStr ''MERGE''),
                       (''engineNode'', JStr ''generateContent''),
                       (''prompt'', JStr (prompt (with_target_model example_env example_contract)))]])])"
    by blast
  have m: "js_or (model (with_target_model example_env example_contract))
             (JStr (DEFAULT_MODEL example_env)) = JStr ''gemini-3-pro-image-preview''"
    by (simp add: with_target_model_def js_or_def model_example DEFAULT_MODEL_def example_env_def)
  have b: "get example_body ''model'' = JStr ''custom-model''" by (simp add: example_body_def)
  show ?thesis unfolding g m using validate_example b by (simp add: graph_nodes_def)
qed
lemma resolve_sources_Inr:
  "resolve_sources env ss = Inr ds
   \<Longrightarrow> length ds = length ss
       \<and> (\<forall>k < length ss. imageRefToInlineData env (imageRef (ss ! k)) = Inr (ds ! k))"
proof (induction ss arbitrary: ds)
  case Nil
  then show ?case by simp
next
  case (Cons s ss)
  from Cons.prems obtain d ds' where d: "imageRefToInlineData env (imageRef s) = Inr d"
    and r: "resolve_sources env ss = Inr ds'" and ds: "ds = d # ds'"
    by (auto split: sum.splits)
  from Cons.IH[OF r] have l: "length ds' = length ss"
    and n: "\<forall>k < length ss. imageRefToInlineData env (imageRef (ss ! k)) = Inr (ds' ! k)"
    by simp_all
  show ?case
  proof (intro conjI allI impI)
    show "length ds = length (s # ss)" by (simp add: ds l)
    fix k assume "k < length (s # ss)"
    then show "imageRefToInlineData env (imageRef ((s # ss) ! k)) = Inr (ds ! k)"
      using d n by (cases k) (simp_all add: ds)
  qed
qed

lemma request_Inr:
  assumes "runDualTrackGeneration_request env c = Inr body"
  obtains ref ds where "imageRefToInlineData env (imageRef (reference c)) = Inr ref"
    and "resolve_sources env (sources c) = Inr ds"
    and "request_parts_of body = request_parts c ref ds"
proof -
  from assms obtain key where key: "GEMINI_API_KEY env = Some key" "key \<noteq> []"
    by (auto simp: runDualTrackGeneration_request_def split: option.splits if_splits)
  obtain g where g: "buildWorkflowGraph env (c\<lparr>model := js_or (model c) (JStr (DEFAULT_MODEL env))\<rparr>) = Inr g"
    using buildWorkflowGraph_shape by blast
  from assms key g obtain ref where ref: "imageRefToInlineData env (imageRef (reference c)) = Inr ref"
    by (cases "imageRefToInlineData env (imageRef (reference c))")
       (auto simp: runDualTrackGeneration_request_def)
  from assms key g ref obtain ds where ds: "resolve_sources env (sources c) = Inr ds"
    by (cases "resolve_sources env (sources c)")
       (auto simp: runDualTrackGeneration_request_def)
  from assms key g ref ds have "request_parts_of body = request_parts c ref ds"
    by (auto simp: runDualTrackGeneration_request_def request_parts_of_def)
  with ref ds that show ?thesis by blast
qed

lemma request_parts_nth:
  "length (request_parts c ref ds) = 2 + 2 * length ds"
  "request_parts c ref ds ! 1 = inline_part ref"
  "k < length ds \<Longrightarrow> request_parts c ref ds ! (2 + k) = source_marker k"
  "k < length ds \<Longrightarrow> request_parts c ref ds ! (2 + length ds + k) = inline_part (ds ! k)"
proof -
  define markers where "markers = map (\<lambda>(index, inlineData).
        JObj [(''text'', JStr (''Source '' @ string_of_nat index @ '' image''))]) (enumerate 0 ds)"
  define images where "images = map (\<lambda>inlineData. JObj [(''inline_data'', inlineData)]) ds"
  have lm: "length markers = length ds" and li: "length images = length ds"
    by (simp_all add: markers_def images_def)
  have rp: "request_parts c ref ds
            = [hd (request_parts c ref ds), inline_part ref] @ markers @ images"
    by (simp add: request_parts_def markers_def images_def inline_part_def)
  show "length (request_parts c ref ds) = 2 + 2 * length ds"
    by (subst rp) (simp add: lm li)
  show "request_parts c ref ds ! 1 = inline_part ref" by (subst rp) simp
  show "request_parts c ref ds ! (2 + k) = source_marker k" if "k < length ds"
  proof -
    have "request_parts c ref ds ! (2 + k) = markers ! k"
      using that by (subst rp) (simp add: nth_append lm)
    also have "\<dots> = source_marker k"
      using that by (simp add: markers_def nth_enumerate_eq source_marker_def)
    finally show ?thesis .
  qed
  show "request_parts c ref ds ! (2 + length ds + k) = inline_part (ds ! k)" if "k < length ds"
  proof -
    have "request_parts c ref ds ! (2 + length ds + k) = images ! k"
      using that by (subst rp) (simp add: nth_append lm)
    also have "\<dots> = inline_part (ds ! k)"
      using that by (simp add: images_def inline_part_def)
    finally show ?thesis .
  qed
qed

text \<open>
  C4, amended. In the request that \<^verbatim>\<open>runDualTrackGeneration\<close> assembles, the parts of the
  user turn are: the text, the reference image, then the index markers of all sources in
  contract order, then the images of all sources in contract order. With \<open>n\<close> sources the
  marker of source \<open>k\<close> is part \<open>2 + k\<close> and its image is part \<open>2 + n + k\<close>: each image comes
  after its marker, and immediately after it only when there is a single source.
\<close>

theorem request_parts_order:
  assumes "runDualTrackGeneration_request env c = Inr body"
  shows "\<exists>ref. imageRefToInlineData env (imageRef (reference c)) = Inr ref
          \<and> length (request_parts_of body) = 2 + 2 * length (sources c)
          \<and> request_parts_of body ! 1 = inline_part ref
          \<and> (\<forall>k < length (sources c).
                request_parts_of body ! (2 + k) = source_marker k
                \<and> (\<exists>d. imageRefToInlineData env (imageRef (sources c ! k)) = Inr d
                       \<and> request_parts_of body ! (2 + length (sources c) + k) = inline_part d))"
proof -
  from assms obtain ref ds where ref: "imageRefToInlineData env (imageRef (reference c)) = Inr ref"
    and ds: "resolve_sources env (sources c) = Inr ds"
    and p: "request_parts_of body = request_parts c ref ds"
    by (rule request_Inr)
  from resolve_sources_Inr[OF ds] have l: "length ds = length (sources c)"
    and n: "\<And>k. k < length (sources c)
              \<Longrightarrow> imageRefToInlineData env (imageRef (sources c ! k)) = Inr (ds ! k)"
    by simp_all
  show ?thesis
    unfolding p using ref n request_parts_nth[where c = c and ref = ref and ds = ds] l by auto
qed
lemma example_images:
  "imageRefToInlineData example_env ''data:image/png;base64,AAAA''
     = Inr (JObj [(''mimeType'', JStr ''image/png''), (''data'', JStr ''AAAA'')])"
  "imageRefToInlineData example_env ''data:image/png;base64,BBBB''
     = Inr (JObj [(''mimeType'', JStr ''image/png''), (''data'', JStr ''BBBB'')])"
  "imageRefToInlineData example_env ''data:image/jpeg;base64,CCCC''
     = Inr (JObj [(''mimeType'', JStr ''image/jpeg''), (''data'', JStr ''CCCC'')])"
  by (simp_all add: imageRefToInlineData_def parseDataUrl_def Let_def)

lemma example_request_Inr:
  "runDualTrackGeneration_request example_env example_contract = Inr example_request"
proof -
  obtain g where g: "buildWorkflowGraph example_env
      (example_contract\<lparr>model := js_or (model example_contract) (JStr (DEFAULT_MODEL example_env))\<rparr>)
      = Inr g"
    using buildWorkflowGraph_shape by blast
  have k: "GEMINI_API_KEY example_env = Some ''key''" by (simp add: example_env_def)
  have r: "imageRef (reference example_contract) = ''data:image/png;base64,AAAA''"
    by (simp add: example_contract_def)
  have s: "resolve_sources example_env (sources example_contract)
           = Inr [JObj [(''mimeType'', JStr ''image/png''), (''data'', JStr ''BBBB'')],
                  JObj [(''mimeType'', JStr ''image/jpeg''), (''data'', JStr ''CCCC'')]]"
    by (simp add: example_contract_def example_images)
  have "\<exists>body. runDualTrackGeneration_request example_env example_contract = Inr body"
    unfolding runDualTrackGeneration_request_def k g r s example_images by simp
  then show ?thesis by (auto simp: example_request_def)
qed

theorem request_parts_order_witness:
  "runDualTrackGeneration_request example_env example_contract = Inr example_request
   \<and> length (request_parts_of example_request) = 6
   \<and> request_parts_of example_request ! 1
       = inline_part (JObj [(''mimeType'', JStr ''image/png''), (''data'', JStr ''AAAA'')])
   \<and> request_parts_of example_request ! 2 = source_marker 0
   \<and> request_parts_of example_request ! 3 = source_marker 1
   \<and> request_parts_of example_request ! 4
       = inline_part (JObj [(''mimeType'', JStr ''image/png''), (''data'', JStr ''BBBB'')])
   \<and> request_parts_of example_request ! 5
       = inline_part (JObj [(''mimeType'', JStr ''image/jpeg''), (''data'', JStr ''CCCC'')])"
proof -
  have l: "length (sources example_contract) = 2" by (simp add: example_contract_def)
  have i: "imageRef (reference example_contract) = ''data:image/png;base64,AAAA''"
    "imageRef (sources example_contract ! 0) = ''data:image/png;base64,BBBB''"
    "imageRef (sources example_contract ! Suc 0) = ''data:image/jpeg;base64,CCCC''"
    by (simp_all add: example_contract_def)
  from request_parts_order[OF example_request_Inr]
  obtain ref where ref: "imageRefToInlineData example_env (imageRef (reference example_contract)) = Inr ref"
    and len: "length (request_parts_of example_request) = 2 + 2 * length (sources example_contract)"
    and p1: "request_parts_of example_request ! 1 = inline_part ref"
    and pk: "\<And>k. k < length (sources example_contract) \<Longrightarrow>
                request_parts_of example_request ! (2 + k) = source_marker k
                \<and> (\<exists>d. imageRefToInlineData example_env (imageRef (sources example_contract ! k)) = Inr d
                       \<and> request_parts_of example_request ! (2 + length (sources example_contract) + k)
                           = inline_part d)"
    by blast
  have a: "ref = JObj [(''mimeType'', JStr ''image/png''), (''data'', JStr ''AAAA'')]"
    using ref by (simp add: i example_images)
  have k0: "request_parts_of example_request ! 2 = source_marker 0"
    "request_parts_of example_request ! 4
       = inline_part (JObj [(''mimeType'', JStr ''image/png''), (''data'', JStr ''BBBB'')])"
    using pk[of 0] by (auto simp: l i example_images)
  have k1: "request_parts_of example_request ! 3 = source_marker 1"
    "request_parts_of example_request ! 5
       = inline_part (JObj [(''mimeType'', JStr ''image/jpeg''), (''data'', JStr ''CCCC'')])"
    using pk[of 1] by (auto simp: l i example_images)
  show ?thesis using example_request_Inr len p1 k0 k1 by (simp add: l a)
qed

text \<open>
  C4, as stated, fails on the example with two sources: the part just before the image of
  source 0 (part 4) is the marker of source 1.
\<close>

theorem source_image_not_next_to_its_marker:
  "runDualTrackGeneration_request example_env example_contract = Inr example_request
   \<and> request_parts_of example_request ! 4
       = inline_part (JObj [(''mimeType'', JStr ''image/png''), (''data'', JStr ''BBBB'')])
   \<and> request_parts_of example_request ! 3 = source_marker 1
   \<and> source_marker 1 \<noteq> source_marker 0"
proof -
  from example_request_Inr obtain ref ds where
    ref: "imageRefToInlineData example_env (imageRef (reference example_contract)) = Inr ref"
    and ds: "resolve_sources example_env (sources example_contract) = Inr ds"
    and p: "request_parts_of example_request = request_parts example_contract ref ds"
    by (rule request_Inr)
  have d: "ds = [JObj [(''mimeType'', JStr ''image/png''), (''data'', JStr ''BBBB'')],
                 JObj [(''mimeType'', JStr ''image/jpeg''), (''data'', JStr ''CCCC'')]]"
    using ds by (simp add: example_contract_def example_images)
  have l: "length ds = 2" by (simp add: d)
  have 4: "request_parts_of example_request ! 4
       = inline_part (JObj [(''mimeType'', JStr ''image/png''), (''data'', JStr ''BBBB'')])"
    using request_parts_nth(4)[of 0 ds example_contract ref] by (simp add: p l) (simp add: d)
  have 3: "request_parts_of example_request ! 3 = source_marker 1"
    using request_parts_nth(3)[of 1 ds example_contract ref] by (simp add: p l)
  have n: "source_marker 1 \<noteq> source_marker 0"
    by (simp add: source_marker_def string_of_nat.simps digit_char_def)
  show ?thesis using example_request_Inr 4 3 n by blast
qed


section \<open>Re-validating a validated contract\<close>

lemma ensureWeight_Inr:
  assumes "ensureWeight value field = Inr w"
  shows "\<exists>x. 0 \<le> x \<and> x \<le> 1 \<and> w = double_of_rat (round_to 4 x)"
proof -
  from assms obtain parsed where p: "(case value of JNum n \<Rightarrow> Inr n | _ \<Rightarrow> js_Number value) = Inr parsed"
    by (cases "case value of JNum n \<Rightarrow> Inr n | _ \<Rightarrow> js_Number value")
       (auto simp: ensureWeight_def)
  from ensureWeight_parsed[OF p, of field] assms have "weight_rule parsed = Inr w" by simp
  then show ?thesis by (auto simp: weight_rule_def split: jsnum.splits if_splits)
qed

lemma stored_weight_fixpoint:
  assumes "0 \<le> x" and "x \<le> 1"
  shows "ensureWeight (JNum (double_of_rat (round_to 4 x))) field = Inr (double_of_rat (round_to 4 x))"
proof -
  note r = round_to_4_range[OF assms]
  from double_of_rat_unit[OF r] obtain y where y: "double_of_rat (round_to 4 x) = Fin y"
    and y0: "0 \<le> y" and y1: "y \<le> 1" and near: "\<bar>y - round_to 4 x\<bar> \<le> 1 / 2 ^ 53"
    by blast
  have s: "round_to 4 y = round_to 4 x" using near by (rule round_to_4_stable)
  have "ensureWeight (JNum (Fin y)) field = Inr (double_of_rat (round_to 4 y))"
    by (rule ensureWeight_accept) (use y0 y1 in simp_all)
  then show ?thesis by (simp only: y s)
qed

lemma ensureWeight_idem:
  "ensureWeight value field = Inr w \<Longrightarrow> ensureWeight (JNum w) field' = Inr w"
  using ensureWeight_Inr stored_weight_fixpoint by blast

lemma ensureString_idem:
  assumes "ensureString value field allowEmpty = Inr t"
  shows "ensureString (JStr t) field' allowEmpty = Inr t"
proof -
  from assms obtain s where "t = trim s" "allowEmpty \<or> trim s \<noteq> []"
    by (auto simp: ensureString_Inr)
  then show ?thesis by (auto simp: ensureString_Inr trim_idem)
qed

lemma validateReference_Inr:
  assumes "validateReference value = Inr r"
  shows "ensureString (get value ''imageRef'') ''reference.imageRef'' False = Inr (imageRef r)"
    and "ensureWeight (get value ''weight'') ''reference.weight'' = Inr (weight r)"
proof -
  from assms have rec: "isRecord value" by (auto simp: validateReference_def split: if_splits)
  obtain i where i: "ensureString (get value ''imageRef'') ''reference.imageRef'' False = Inr i"
    using assms rec by (cases "ensureString (get value ''imageRef'') ''reference.imageRef'' False")
      (auto simp: validateReference_def)
  obtain w where w: "ensureWeight (get value ''weight'') ''reference.weight'' = Inr w"
    using assms rec i by (cases "ensureWeight (get value ''weight'') ''reference.weight''")
      (auto simp: validateReference_def)
  have r: "r = \<lparr>imageRef = i, weight = w\<rparr>" using assms rec i w by (simp add: validateReference_def)
  show "ensureString (get value ''imageRef'') ''reference.imageRef'' False = Inr (imageRef r)"
    by (simp add: r i)
  show "ensureWeight (get value ''weight'') ''reference.weight'' = Inr (weight r)"
    by (simp add: r w)
qed

lemma validateReference_idem:
  assumes "validateReference value = Inr r"
  shows "validateReference (reference_js r) = Inr r"
proof -
  note v = validateReference_Inr[OF assms]
  have "ensureString (JStr (imageRef r)) ''reference.imageRef'' False = Inr (imageRef r)"
    using v(1) by (rule ensureString_idem)
  moreover have "ensureWeight (JNum (weight r)) ''reference.weight'' = Inr (weight r)"
    using v(2) by (rule ensureWeight_idem)
  ultimately show ?thesis by (simp add: validateReference_def reference_js_def)
qed

lemma feature_constant:
  assumes "f \<in> set FEATURE_TYPES"
  shows "trim f = f" and "toUpperCase f = f" and "f \<noteq> []"
proof -
  from assms consider "f = ''FACE''" | "f = ''STYLE''" | "f = ''MATERIAL''" | "f = ''COMPONENT''"
    by (auto simp: FEATURE_TYPES_def)
  then have "trim f = f \<and> toUpperCase f = f \<and> f \<noteq> []"
    by cases (simp_all add: trim_def is_ws_def toUpperCase_def upper_char_def)
  then show "trim f = f" and "toUpperCase f = f" and "f \<noteq> []" by simp_all
qed

lemma validateSource_Inr:
  assumes "validateSource value index = Inr s"
  shows "featureType s \<in> set FEATURE_TYPES"
    and "\<exists>field. ensureString (get value ''imageRef'') field False = Inr (imageRef s)"
    and "\<exists>field. ensureWeight (get value ''weight'') field = Inr (weight s)"
proof -
  define here where "here = ''sources['' @ string_of_nat index @ '']''"
  from assms have rec: "isRecord value"
    by (auto simp: validateSource_def Let_def split: if_splits)
  obtain ft where ft: "ensureString (get value ''featureType'') (here @ ''.featureType'') False = Inr ft"
    using assms rec
    by (cases "ensureString (get value ''featureType'') (here @ ''.featureType'') False")
       (auto simp: validateSource_def Let_def here_def)
  have ok: "toUpperCase ft \<in> set FEATURE_TYPES"
    using assms rec ft by (auto simp: validateSource_def Let_def here_def split: if_splits)
  obtain i where i: "ensureString (get value ''imageRef'') (here @ ''.imageRef'') False = Inr i"
    using assms rec ft ok
    by (cases "ensureString (get value ''imageRef'') (here @ ''.imageRef'') False")
       (auto simp: validateSource_def Let_def here_def)
  obtain w where w: "ensureWeight (get value ''weight'') (here @ ''.weight'') = Inr w"
    using assms rec ft ok i
    by (cases "ensureWeight (get value ''weight'') (here @ ''.weight'')")
       (auto simp: validateSource_def Let_def here_def)
  have s: "s = \<lparr>imageRef = i, weight = w, featureType = toUpperCase ft\<rparr>"
    using assms rec ft ok i w by (simp add: validateSource_def Let_def here_def)
  show "featureType s \<in> set FEATURE_TYPES" using ok by (simp add: s)
  show "\<exists>field. ensureString (get value ''imageRef'') field False = Inr (imageRef s)"
    using i by (auto simp: s)
  show "\<exists>field. ensureWeight (get value ''weight'') field = Inr (weight s)"
    using w by (auto simp: s)
qed

lemma validateSource_idem:
  assumes "validateSource value index = Inr s"
  shows "validateSource (source_js s) index' = Inr s"
proof -
  note v = validateSource_Inr[OF assms]
  note f = feature_constant[OF v(1)]
  from v(2) obtain field where "ensureString (get value ''imageRef'') field False = Inr (imageRef s)" ..
  then have i: "ensureString (JStr (imageRef s)) field' False = Inr (imageRef s)" for field'
    by (rule ensureString_idem)
  from v(3) obtain field where "ensureWeight (get value ''weight'') field = Inr (weight s)" ..
  then have w: "ensureWeight (JNum (weight s)) field' = Inr (weight s)" for field'
    by (rule ensureWeight_idem)
  have ft: "ensureString (JStr (featureType s)) field' False = Inr (featureType s)" for field'
    using f by (simp add: ensureString_Inr)
  show ?thesis
    using v(1) by (simp add: validateSource_def source_js_def Let_def ft f i w)
qed

lemma validateSources_idem:
  "validateSources vs index = Inr ss \<Longrightarrow> validateSources (map source_js ss) index' = Inr ss"
proof (induction vs arbitrary: ss index index')
  case Nil
  then show ?case by simp
next
  case (Cons v vs)
  from Cons.prems obtain s ss' where s: "validateSource v index = Inr s"
    and r: "validateSources vs (Suc index) = Inr ss'" and ss: "ss = s # ss'"
    by (auto split: sum.splits)
  show ?case
    using validateSource_idem[OF s, of index'] Cons.IH[OF r, of "Suc index'"]
    by (simp add: ss)
qed

lemma validateSources_length: "validateSources vs index = Inr ss \<Longrightarrow> length ss = length vs"
  by (induction vs arbitrary: ss index) (auto split: sum.splits)

text \<open>
  C6. Validating the contract that \<^verbatim>\<open>validateGenerationContract\<close> returned succeeds and
  returns the same contract: the same trimmed strings, the same rounded weights (a weight
  that is the Number nearest to a four-place decimal rounds to itself), the same upper-case
  feature types and the same sources in the same order.
\<close>

theorem validateGenerationContract_idempotent:
  assumes "validateGenerationContract input = Inr c"
  shows "validateGenerationContract (contract_js c) = Inr c"
proof -
  note v = validate_Inr[OF assms]
  have t: "ensureString (JStr (taskId c)) ''taskId'' False = Inr (taskId c)"
    using v(2) by (rule ensureString_idem)
  have p: "ensureString (JStr (prompt c)) ''prompt'' False = Inr (prompt c)"
    using v(3) by (rule ensureString_idem)
  have n: "ensureString (JStr (negativePrompt c)) ''negativePrompt'' True = Inr (negativePrompt c)"
  proof (cases "get input ''negativePrompt'' = JUndefined")
    case True
    with v(4) have "negativePrompt c = []" by simp
    then show ?thesis by (simp add: ensureString_Inr trim_def)
  next
    case False
    with v(4) have "ensureString (get input ''negativePrompt'') ''negativePrompt'' True
                    = Inr (negativePrompt c)" by simp
    then show ?thesis by (rule ensureString_idem)
  qed
  have r: "validateReference (reference_js (reference c)) = Inr (reference c)"
    using v(5) by (rule validateReference_idem)
  from v(6) obtain vs where vs: "vs \<noteq> []" "validateSources vs 0 = Inr (sources c)" by blast
  have s: "validateSources (map source_js (sources c)) 0 = Inr (sources c)"
    using vs(2) by (rule validateSources_idem)
  have ne: "sources c \<noteq> []" using validateSources_length[OF vs(2)] vs(1) by auto
  have g: "get (contract_js c) ''taskId'' = JStr (taskId c)"
    "get (contract_js c) ''prompt'' = JStr (prompt c)"
    "get (contract_js c) ''negativePrompt'' = JStr (negativePrompt c)"
    "get (contract_js c) ''reference'' = reference_js (reference c)"
    "get (contract_js c) ''sources'' = JArr (map source_js (sources c))"
    "isRecord (contract_js c)"
    by (simp_all add: contract_js_def)
  have c: "\<lparr>taskId = taskId c, prompt = prompt c, negativePrompt = negativePrompt c,
            reference = reference c, sources = sources c, model = JUndefined\<rparr> = c"
    using v(7) by simp
  show ?thesis
    unfolding validateGenerationContract_def g
    by (simp add: g t p n r s ne c)
qed

theorem validateGenerationContract_idempotent_witness:
  "validateGenerationContract example_body = Inr example_contract
   \<and> validateGenerationContract (contract_js example_contract) = Inr example_contract"
  using validateGenerationContract_idempotent[OF validate_example] validate_example by simp


section \<open>The errors of validation\<close>

lemma js_Number_error:
  "js_Number v = Inl e \<Longrightarrow>
     e = TypeError ''Cannot convert object to primitive value'' \<and> toString_throws v"
  by (induction v rule: js_Number.induct) (auto split: if_splits jsval.splits)

lemma ensureString_error:
  "ensureString value field allowEmpty = Inl e \<Longrightarrow> \<exists>code message details. e = ContractValidationError code message details"
  by (auto simp: ensureString_def Let_def split: jsval.splits if_splits)

lemma ensureWeight_error:
  assumes "ensureWeight value field = Inl e"
  shows "(\<exists>code message details. e = ContractValidationError code message details)
         \<or> e = TypeError ''Cannot convert object to primitive value'' \<and> toString_throws value"
proof (cases "case value of JNum n \<Rightarrow> Inr n | _ \<Rightarrow> js_Number value")
  case (Inl err)
  then have "js_Number value = Inl err" by (cases "value") simp_all
  from js_Number_error[OF this] assms Inl show ?thesis by (simp add: ensureWeight_def)
next
  case (Inr parsed)
  with assms show ?thesis by (auto simp: ensureWeight_def split: if_splits)
qed

lemma validateReference_error:
  assumes "validateReference value = Inl e"
  shows "(\<exists>code message details. e = ContractValidationError code message details)
         \<or> e = TypeError ''Cannot convert object to primitive value''"
  using assms ensureString_error ensureWeight_error
  by (fastforce simp: validateReference_def split: if_splits sum.splits)

lemma validateSource_error:
  assumes "validateSource value index = Inl e"
  shows "(\<exists>code message details. e = ContractValidationError code message details)
         \<or> e = TypeError ''Cannot convert object to primitive value''"
  using assms ensureString_error ensureWeight_error
  by (fastforce simp: validateSource_def Let_def split: if_splits sum.splits)

lemma validateSources_error:
  "validateSources vs index = Inl e \<Longrightarrow>
     (\<exists>code message details. e = ContractValidationError code message details)
     \<or> e = TypeError ''Cannot convert object to primitive value''"
proof (induction vs arbitrary: index)
  case Nil
  then show ?case by simp
next
  case (Cons v vs)
  then show ?case using validateSource_error by (fastforce split: sum.splits)
qed

lemma validateGenerationContract_error:
  assumes "validateGenerationContract input = Inl e"
  shows "(\<exists>code message details. e = ContractValidationError code message details)
         \<or> e = TypeError ''Cannot convert object to primitive value''"
  using assms ensureString_error validateReference_error validateSources_error
  by (fastforce simp: validateGenerationContract_def split: if_splits sum.splits jsval.splits)

lemma first_violation_in_field_order:
  assumes "isRecord input"
  shows "ensureString (get input ''taskId'') ''taskId'' False = Inl e
         \<Longrightarrow> validateGenerationContract input = Inl e"
    and "ensureString (get input ''taskId'') ''taskId'' False = Inr tid
         \<Longrightarrow> ensureString (get input ''prompt'') ''prompt'' False = Inl e
         \<Longrightarrow> validateGenerationContract input = Inl e"
    and "ensureString (get input ''taskId'') ''taskId'' False = Inr tid
         \<Longrightarrow> ensureString (get input ''prompt'') ''prompt'' False = Inr pr
         \<Longrightarrow> get input ''negativePrompt'' \<noteq> JUndefined
         \<Longrightarrow> ensureString (get input ''negativePrompt'') ''negativePrompt'' True = Inl e
         \<Longrightarrow> validateGenerationContract input = Inl e"
    and "ensureString (get input ''taskId'') ''taskId'' False = Inr tid
         \<Longrightarrow> ensureString (get input ''prompt'') ''prompt'' False = Inr pr
         \<Longrightarrow> (if get input ''negativePrompt'' = JUndefined then Inr []
              else ensureString (get input ''negativePrompt'') ''negativePrompt'' True) = Inr neg
         \<Longrightarrow> validateReference (get input ''reference'') = Inl e
         \<Longrightarrow> validateGenerationContract input = Inl e"
    and "ensureString (get input ''taskId'') ''taskId'' False = Inr tid
         \<Longrightarrow> ensureString (get input ''prompt'') ''prompt'' False = Inr pr
         \<Longrightarrow> (if get input ''negativePrompt'' = JUndefined then Inr []
              else ensureString (get input ''negativePrompt'') ''negativePrompt'' True) = Inr neg
         \<Longrightarrow> validateReference (get input ''reference'') = Inr ref
         \<Longrightarrow> get input ''sources'' = JArr vs \<Longrightarrow> vs \<noteq> []
         \<Longrightarrow> validateSources vs 0 = Inl e
         \<Longrightarrow> validateGenerationContract input = Inl e"
  using assms by (simp_all add: validateGenerationContract_def)

lemma first_invalid_source:
  assumes "k < length vs"
    and "\<forall>j<k. \<exists>s. validateSource (vs ! j) (index + j) = Inr s"
    and "validateSource (vs ! k) (index + k) = Inl e"
  shows "validateSources vs index = Inl e"
  using assms
proof (induction vs arbitrary: k index)
  case Nil
  then show ?case by simp
next
  case (Cons v vs)
  show ?case
  proof (cases k)
    case 0
    with Cons.prems(3) show ?thesis by simp
  next
    case (Suc k')
    from Cons.prems(2) Suc obtain s where s: "validateSource v index = Inr s" by fastforce
    have "validateSources vs (Suc index) = Inl e"
    proof (rule Cons.IH[of k'])
      show "k' < length vs" using Cons.prems(1) Suc by simp
      show "\<forall>j<k'. \<exists>s. validateSource (vs ! j) (Suc index + j) = Inr s"
        using Cons.prems(2) Suc by (metis Suc_less_eq add_Suc_shift nth_Cons_Suc)
      show "validateSource (vs ! k') (Suc index + k') = Inl e"
        using Cons.prems(3) Suc by simp
    qed
    with s show ?thesis by simp
  qed
qed

text \<open>
  C8. A body whose reference weight is an object with an own property \<^verbatim>\<open>toString\<close> is
  invalid, but \<^verbatim>\<open>validateGenerationContract\<close> does not raise a \<^verbatim>\<open>ContractValidationError\<close>
  for it: \<^verbatim>\<open>Number(value)\<close> in \<^verbatim>\<open>ensureWeight\<close> throws a \<^verbatim>\<open>TypeError\<close> before the check for a
  finite number is reached, and \<^verbatim>\<open>POST /api/tasks\<close> answers 500 \<^verbatim>\<open>UNEXPECTED_ERROR\<close>
  where every other violation is answered 400.
\<close>

theorem unconvertible_weight_raises_TypeError:
  "validateGenerationContract unconvertible_weight_body
     = Inl (TypeError ''Cannot convert object to primitive value'')
   \<and> post_tasks enc env now unconvertible_weight_body srv
     = ((500, JObj [(''error'', JObj [(''code'', JStr ''UNEXPECTED_ERROR''),
                                      (''message'', JStr ''Cannot convert object to primitive value'')])]),
        [])"
proof -
  have t: "ensureString (JStr ''t1'') ''taskId'' False = Inr ''t1''"
    and p: "ensureString (JStr ''p'') ''prompt'' False = Inr ''p''"
    and i: "ensureString (JStr ''data:image/png;base64,AAAA'') ''reference.imageRef'' False
            = Inr ''data:image/png;base64,AAAA''"
    by code_simp+
  have w: "ensureWeight (JObj [(''toString'', JNull)]) ''reference.weight''
           = Inl (TypeError ''Cannot convert object to primitive value'')"
    by (simp add: ensureWeight_def)
  have v: "validateGenerationContract unconvertible_weight_body
           = Inl (TypeError ''Cannot convert object to primitive value'')"
    by (simp add: validateGenerationContract_def unconvertible_weight_body_def
        validateReference_def t p i w)
  show ?thesis by (simp add: v post_tasks_def)
qed

end
